theory Spec2Isabelle
  imports Main "HOL-Library.Multiset"
begin

section \<open>Plain objects\<close>

text \<open>
  A plain JavaScript object is the list of its own enumerable string-keyed properties in
  the order in which they were created; the keys of an object are distinct
  (\<open>distinct (map fst obj)\<close>). An object that is given to the program (a breakpoint set, a
  fallback mapping) may have any own keys, \<^verbatim>\<open>__proto__\<close> among them (as the value of
  \<^verbatim>\<open>JSON.parse\<close> may, or an object literal with a computed key).
\<close>

type_synonym 'v obj = "(string \<times> 'v) list"

definition keys :: "'v obj \<Rightarrow> string set" where
  "keys obj = fst ` set obj"

definition get :: "'v obj \<Rightarrow> string \<Rightarrow> 'v option" where
  "get obj key = map_of obj key"

text \<open>
  \<^verbatim>\<open>obj[key] = v\<close>: an existing own property keeps its position and takes the new value;
  a new property is created last, unless the key is \<^verbatim>\<open>__proto__\<close>. Every plain object
  inherits \<^verbatim>\<open>__proto__\<close> from \<^verbatim>\<open>Object.prototype\<close> as an accessor, so an assignment to it
  on an object that has no own property of that name calls the inherited setter: the
  setter ignores a boolean and takes a query handle as the new prototype of the object,
  and in both cases the object gets no own property. \<^verbatim>\<open>Object.entries\<close> enumerates own
  properties only. What an object inherits from a handle that has become its prototype
  is not modelled: handles are taken to have writable data properties only, as the
  handles of the package's tests have, so that a later assignment still creates an own
  property.
\<close>

fun assign :: "'v obj \<Rightarrow> string \<Rightarrow> 'v \<Rightarrow> 'v obj" where
  "assign [] key v = (if key = ''__proto__'' then [] else [(key, v)])"
| "assign ((k, u) # ps) key v = (if k = key then (k, v) # ps else (k, u) # assign ps key v)"

text \<open>
  \<^verbatim>\<open>export const entries = Object.entries as ...\<close> (common.ts). \<^verbatim>\<open>Object.entries\<close> enumerates
  the own properties in the order of the language's own-property-keys operation: first the
  keys that are array indices (canonical decimal numerals below \<open>2^32 - 1\<close>) in ascending
  numeric order, then every other string key in order of creation.
\<close>

definition is_digit :: "char \<Rightarrow> bool" where
  "is_digit c = (c \<in> set ''0123456789'')"

definition digit_value :: "char \<Rightarrow> nat" where
  "digit_value c = length (takeWhile (\<lambda>d. d \<noteq> c) ''0123456789'')"

definition index_value :: "string \<Rightarrow> nat" where
  "index_value s = foldl (\<lambda>n c. 10 * n + digit_value c) 0 s"

fun canonical_numeral :: "string \<Rightarrow> bool" where
  "canonical_numeral [] = False"
| "canonical_numeral [c] = is_digit c"
| "canonical_numeral (c # cs) = (is_digit c \<and> c \<noteq> CHR ''0'' \<and> list_all is_digit cs)"

definition is_array_index :: "string \<Rightarrow> bool" where
  "is_array_index s = (canonical_numeral s \<and> index_value s < 2 ^ 32 - 1)"

definition entries :: "'v obj \<Rightarrow> (string \<times> 'v) list" where
  "entries obj =
     sort_key (\<lambda>p. index_value (fst p)) (filter (\<lambda>p. is_array_index (fst p)) obj)
     @ filter (\<lambda>p. \<not> is_array_index (fst p)) obj"

section \<open>Values and the object heap\<close>

text \<open>
  Breakpoint sets hold width strings, match mappings hold booleans. Objects are passed by
  reference: an address is a position in the heap, \<^verbatim>\<open>{}\<close> allocates the next position.
  The program only writes through addresses it was given or has allocated; a write
  through any other address leaves the heap of the model as it is.
\<close>

datatype val = Str string | Bool bool

fun toString :: "val \<Rightarrow> string" where
  "toString (Str s) = s"
| "toString (Bool b) = (if b then ''true'' else ''false'')"

type_synonym addr = nat

definition new_object :: "val obj list \<Rightarrow> addr \<times> val obj list" where
  "new_object h = (length h, h @ [[]])"

definition set_prop :: "val obj list \<Rightarrow> addr \<Rightarrow> string \<Rightarrow> val \<Rightarrow> val obj list" where
  "set_prop h a key v = h[a := assign (h ! a) key v]"

section \<open>common.ts\<close>

text \<open>
  \<^verbatim>\<open>
  export const getEmptyMatchesFromBreakpoints = (breakpoints) => {
    const matches = {};
    entries(breakpoints).forEach(([key]) => (matches[key] = false));
    return matches;
  };
  \<close>
\<close>

definition getEmptyMatchesFromBreakpoints :: "val obj list \<Rightarrow> addr \<Rightarrow> addr \<times> val obj list" where
  "getEmptyMatchesFromBreakpoints h breakpoints =
     (let (matches, h1) = new_object h
      in (matches,
          foldl (\<lambda>h (key, _). set_prop h matches key (Bool False)) h1 (entries (h1 ! breakpoints))))"

section \<open>The platform and the reactive runtime\<close>

text \<open>
  The package runs on a platform (\<^verbatim>\<open>window.matchMedia\<close> and the handles it makes) and on
  the reactive runtime solid-js (signals, memos, stores, effects, cleanups). Neither is
  part of the package; both are modelled as far as the package uses them, as operations
  on an explicit world.

  A listener is a closure, represented by the variables it captures: \<open>OnChange sig mql\<close> is
  \<^verbatim>\<open>() => setState(mql.matches)\<close> of createMediaQuery, \<open>Listener matches token\<close> is
  \<^verbatim>\<open>(event) => setMatches(token, event.matches)\<close> of createBreakpoints. A closure is
  only made over a signal or a store that the same call creates, so two closures of
  different calls differ as values, as they do as objects.
\<close>

datatype listener = OnChange nat nat | Listener addr string

text \<open>A MediaQueryList handle: its query, its current match state, its change listeners.\<close>

record mql =
  mql_media :: string
  mql_matches :: bool
  mql_listeners :: "listener list"

text \<open>What the module does to the platform, in order.\<close>

datatype event = MatchMedia string | AddEventListener nat listener | RemoveEventListener nat listener

text \<open>\<open>RemoveListener mql l\<close> is the cleanup \<^verbatim>\<open>() => mql.removeEventListener("change", l)\<close>.\<close>

datatype cleanup = RemoveListener nat listener

record options =
  responsiveMode :: "string option"
  watchChange :: "bool option"
  fallbackMatch :: "addr option"

text \<open>
  \<open>WatchBreakpoints options isMqSupported mqlInstances matches\<close> is the function handed to
  createEffect by createBreakpoints, with the variables it reads.
\<close>

datatype effect = WatchBreakpoints options bool "nat obj" addr

text \<open>
  What createMediaQuery returns: the getter of a signal (index.ts) or a constant function
  (server.ts).
\<close>

datatype accessor = Signal nat | Const bool

datatype error = TypeError

text \<open>
  \<open>isServer\<close> is the flag of solid-js/web; \<open>matchMedia\<close> is \<^verbatim>\<open>window.matchMedia\<close>, \<open>None\<close>
  where it is undefined, and otherwise the current match state of every query; \<open>heap\<close>
  holds the plain objects, \<open>mqls\<close> the handles made so far and \<open>signals\<close> the values of
  the signals made so far, each addressed by its position; \<open>owner\<close> says whether
  \<^verbatim>\<open>getOwner()\<close> is non-null; \<open>effects\<close> are the effects created and not yet run;
  \<open>cleanups\<close> are the functions registered with onCleanup; \<open>trace\<close> is what the platform
  has been asked to do.
\<close>

record world =
  isServer :: bool
  matchMedia :: "(string \<Rightarrow> bool) option"
  heap :: "val obj list"
  mqls :: "mql list"
  signals :: "bool list"
  owner :: bool
  effects :: "effect list"
  cleanups :: "cleanup list"
  trace :: "event list"

definition window_matchMedia :: "world \<Rightarrow> string \<Rightarrow> error + (nat \<times> world)" where
  "window_matchMedia w query =
     (case matchMedia w of
        None \<Rightarrow> Inl TypeError
      | Some f \<Rightarrow>
          Inr (length (mqls w),
               w\<lparr>mqls := mqls w @ [\<lparr>mql_media = query, mql_matches = f query, mql_listeners = []\<rparr>],
                 trace := trace w @ [MatchMedia query]\<rparr>))"

definition addEventListener :: "world \<Rightarrow> nat \<Rightarrow> listener \<Rightarrow> world" where
  "addEventListener w m l =
     w\<lparr>mqls := (mqls w)[m := (mqls w ! m)\<lparr>mql_listeners :=
                   (if l \<in> set (mql_listeners (mqls w ! m)) then mql_listeners (mqls w ! m)
                    else mql_listeners (mqls w ! m) @ [l])\<rparr>],
       trace := trace w @ [AddEventListener m l]\<rparr>"

definition removeEventListener :: "world \<Rightarrow> nat \<Rightarrow> listener \<Rightarrow> world" where
  "removeEventListener w m l =
     w\<lparr>mqls := (mqls w)[m := (mqls w ! m)\<lparr>mql_listeners := removeAll l (mql_listeners (mqls w ! m))\<rparr>],
       trace := trace w @ [RemoveEventListener m l]\<rparr>"

definition onCleanup :: "world \<Rightarrow> cleanup \<Rightarrow> world" where
  "onCleanup w c = w\<lparr>cleanups := cleanups w @ [c]\<rparr>"

definition createEffect :: "world \<Rightarrow> effect \<Rightarrow> world" where
  "createEffect w e = w\<lparr>effects := effects w @ [e]\<rparr>"

definition createSignal :: "world \<Rightarrow> bool \<Rightarrow> accessor \<times> world" where
  "createSignal w v = (Signal (length (signals w)), w\<lparr>signals := signals w @ [v]\<rparr>)"

fun read :: "world \<Rightarrow> accessor \<Rightarrow> bool" where
  "read w (Signal s) = signals w ! s"
| "read w (Const b) = b"

text \<open>\<^verbatim>\<open>xs.forEach(f)\<close> with a callback that may throw: the first exception ends the loop.\<close>

fun forEach :: "'a list \<Rightarrow> ('s \<Rightarrow> 'a \<Rightarrow> error + 's) \<Rightarrow> 's \<Rightarrow> error + 's" where
  "forEach [] f s = Inr s"
| "forEach (x # xs) f s = (case f s x of Inl e \<Rightarrow> Inl e | Inr s' \<Rightarrow> forEach xs f s')"

section \<open>index.ts\<close>

text \<open>
  \<^verbatim>\<open>
  const createMediaQuery = (query, fallbackState = false, watchChange = true) => {
    let initialState = fallbackState;
    if (!isServer) {
      const mql = window.matchMedia(query);
      initialState = mql.matches;
      if (watchChange) {
        const onChange = () => setState(mql.matches);
        mql.addEventListener("change", onChange);
        if (getOwner()) {
          onCleanup(() => mql.removeEventListener("change", onChange));
        }
      }
    }
    const [state, setState] = createSignal(initialState);
    return state;
  };
  \<close>
  An omitted argument is \<open>None\<close> and takes the default of the parameter.
\<close>

definition createMediaQuery ::
  "world \<Rightarrow> string \<Rightarrow> bool option \<Rightarrow> bool option \<Rightarrow> error + (accessor \<times> world)" where
  "createMediaQuery w query fallbackState_arg watchChange_arg =
     (let fallbackState = (case fallbackState_arg of None \<Rightarrow> False | Some b \<Rightarrow> b);
          watchChange = (case watchChange_arg of None \<Rightarrow> True | Some b \<Rightarrow> b)
      in if \<not> isServer w then
           (case window_matchMedia w query of
              Inl e \<Rightarrow> Inl e
            | Inr (mql, w1) \<Rightarrow>
                (let initialState = mql_matches (mqls w1 ! mql);
                     w2 = (if watchChange then
                             (let onChange = OnChange (length (signals w1)) mql;
                                  w' = addEventListener w1 mql onChange
                              in if owner w' then onCleanup w' (RemoveListener mql onChange) else w')
                           else w1)
                 in Inr (createSignal w2 initialState)))
         else Inr (createSignal w fallbackState))"

text \<open>
  \<^verbatim>\<open>
  function checkMqSupported() {
    if (isServer) { return false; }
    if (!window.matchMedia) { return false; }
    return true;
  }
  \<close>
\<close>

definition checkMqSupported :: "world \<Rightarrow> bool" where
  "checkMqSupported w =
     (if isServer w then False else if matchMedia w = None then False else True)"

text \<open>
  \<^verbatim>\<open>
  const responsiveProperty = options.responsiveMode === "desktop-first" ? "max" : "min";
  const mediaquery = `(${responsiveProperty}-width: ${width})`;
  \<close>
\<close>

definition mediaquery :: "options \<Rightarrow> val \<Rightarrow> string" where
  "mediaquery options width =
     (let responsiveProperty = (if responsiveMode options = Some ''desktop-first'' then ''max'' else ''min'')
      in ''('' @ responsiveProperty @ ''-width: '' @ toString width @ '')'')"

text \<open>
  The function of the memo \<^verbatim>\<open>mqlInstances\<close>; the memo is computed when it is created. Its
  object is local to the memo and never written after it is returned, so it is a value
  (\<open>instances\<close> where it is read).
  \<^verbatim>\<open>
  const mqlInstances = {};
  if (isMqSupported) {
    entries(breakpoints).forEach(([token, width]) => {
      ...
      const instance = window.matchMedia(mediaquery);
      mqlInstances[token] = instance;
    });
  }
  return mqlInstances;
  \<close>
\<close>

definition mqlInstances :: "world \<Rightarrow> addr \<Rightarrow> options \<Rightarrow> bool \<Rightarrow> error + (nat obj \<times> world)" where
  "mqlInstances w breakpoints options isMqSupported =
     (if isMqSupported then
        forEach (entries (heap w ! breakpoints))
          (\<lambda>(instances, w) (token, width).
             case window_matchMedia w (mediaquery options width) of
               Inl e \<Rightarrow> Inl e
             | Inr (inst, w') \<Rightarrow> Inr (assign instances token inst, w'))
          ([], w)
      else Inr ([], w))"

text \<open>
  \<^verbatim>\<open>
  function getInitialMatches() {
    if (!isMqSupported) {
      return options.fallbackMatch || getEmptyMatchesFromBreakpoints(breakpoints);
    }
    const matches = {};
    entries(mqlInstances()).forEach(([token, mql]) => {
      matches[token] = mql.matches;
    });
    return matches;
  }
  \<close>
\<close>

definition getInitialMatches :: "world \<Rightarrow> addr \<Rightarrow> options \<Rightarrow> bool \<Rightarrow> nat obj \<Rightarrow> addr \<times> world" where
  "getInitialMatches w breakpoints options isMqSupported instances =
     (if \<not> isMqSupported then
        (case fallbackMatch options of
           Some f \<Rightarrow> (f, w)
         | None \<Rightarrow>
             (let (m, h) = getEmptyMatchesFromBreakpoints (heap w) breakpoints
              in (m, w\<lparr>heap := h\<rparr>)))
      else
        (let (matches, h1) = new_object (heap w);
             h2 = foldl (\<lambda>h (token, mql). set_prop h matches token (Bool (mql_matches (mqls w ! mql))))
                    h1 (entries instances)
         in (matches, w\<lparr>heap := h2\<rparr>)))"

text \<open>
  The function of the effect:
  \<^verbatim>\<open>
  const shouldWatch = options.watchChange ?? true;
  if (!shouldWatch || !isMqSupported) { return; }
  entries(mqlInstances()).forEach(([token, mql]) => {
    const listener = (event) => { setMatches(token, event.matches); };
    mql.addEventListener("change", listener);
    onCleanup(() => { mql.removeEventListener("change", listener); });
  });
  \<close>
\<close>

fun run_effect :: "world \<Rightarrow> effect \<Rightarrow> world" where
  "run_effect w (WatchBreakpoints options isMqSupported instances matches) =
     (let shouldWatch = (case watchChange options of None \<Rightarrow> True | Some b \<Rightarrow> b)
      in if \<not> shouldWatch \<or> \<not> isMqSupported then w
         else foldl (\<lambda>w (token, mql).
                       let listener = Listener matches token;
                           w' = addEventListener w mql listener
                       in onCleanup w' (RemoveListener mql listener))
                w (entries instances))"

text \<open>
  \<^verbatim>\<open>
  function createBreakpoints(breakpoints, options = {}) {
    const isMqSupported = checkMqSupported();
    const mqlInstances = createMemo(() => { ... });
    function getInitialMatches() { ... }
    const [matches, setMatches] = createStore(getInitialMatches());
    createEffect(() => { ... });
    return matches;
  }
  \<close>
  The store made by createStore wraps the object it is given, so the store is that
  object's address; the effect is queued by createEffect and runs when the scope is
  mounted.
\<close>

definition createBreakpoints :: "world \<Rightarrow> addr \<Rightarrow> options \<Rightarrow> error + (addr \<times> world)" where
  "createBreakpoints w breakpoints options =
     (let isMqSupported = checkMqSupported w
      in case mqlInstances w breakpoints options isMqSupported of
           Inl e \<Rightarrow> Inl e
         | Inr (memo, w1) \<Rightarrow>
             (let (matches, w2) = getInitialMatches w1 breakpoints options isMqSupported memo;
                  w3 = createEffect w2 (WatchBreakpoints options isMqSupported memo matches)
              in Inr (matches, w3)))"

text \<open>\<^verbatim>\<open>options = {}\<close>, the default of the second parameter.\<close>

definition no_options :: options where
  "no_options = \<lparr>responsiveMode = None, watchChange = None, fallbackMatch = None\<rparr>"

section \<open>server.ts\<close>

text \<open>
  \<^verbatim>\<open>
  const createMediaQuery = (_query, _initialState = false, _watchChange = true) => () => false;
  export const createBreakpoints = (_breakpoints, options = {}) =>
    options.fallbackMatch || getEmptyMatchesFromBreakpoints(_breakpoints);
  \<close>
\<close>

definition createMediaQuery_server :: "string \<Rightarrow> bool option \<Rightarrow> bool option \<Rightarrow> accessor" where
  "createMediaQuery_server query initialState watch = Const False"

definition createBreakpoints_server :: "world \<Rightarrow> addr \<Rightarrow> options \<Rightarrow> addr \<times> world" where
  "createBreakpoints_server w breakpoints options =
     (case fallbackMatch options of
        Some f \<Rightarrow> (f, w)
      | None \<Rightarrow>
          (let (m, h) = getEmptyMatchesFromBreakpoints (heap w) breakpoints
           in (m, w\<lparr>heap := h\<rparr>)))"

section \<open>The life of a scope\<close>

text \<open>
  What happens to a scope after its observers are created: it is mounted (the queued
  effects run), the platform delivers a change notification on a handle (the handle
  takes the new match state, then each of its listeners is called with the event), or
  the scope is disposed (its cleanups run, last registered first, and effects that have
  not run never will).
\<close>

fun call_listener :: "bool \<Rightarrow> world \<Rightarrow> listener \<Rightarrow> world" where
  "call_listener event_matches w (Listener matches token) =
     w\<lparr>heap := set_prop (heap w) matches token (Bool event_matches)\<rparr>"
| "call_listener event_matches w (OnChange s m) =
     w\<lparr>signals := (signals w)[s := mql_matches (mqls w ! m)]\<rparr>"

definition dispatch_change :: "world \<Rightarrow> nat \<Rightarrow> bool \<Rightarrow> world" where
  "dispatch_change w m event_matches =
     (if m < length (mqls w) then
        (let w1 = w\<lparr>mqls := (mqls w)[m := (mqls w ! m)\<lparr>mql_matches := event_matches\<rparr>]\<rparr>
         in foldl (call_listener event_matches) w1 (mql_listeners (mqls w1 ! m)))
      else w)"

definition mount :: "world \<Rightarrow> world" where
  "mount w = foldl run_effect (w\<lparr>effects := []\<rparr>) (effects w)"

fun run_cleanup :: "world \<Rightarrow> cleanup \<Rightarrow> world" where
  "run_cleanup w (RemoveListener m l) = removeEventListener w m l"

definition dispose :: "world \<Rightarrow> world" where
  "dispose w = foldl run_cleanup (w\<lparr>effects := [], cleanups := []\<rparr>) (rev (cleanups w))"

datatype action = Mount | Change nat bool | Dispose

fun step :: "world \<Rightarrow> action \<Rightarrow> world" where
  "step w Mount = mount w"
| "step w (Change m b) = dispatch_change w m b"
| "step w Dispose = dispose w"

definition run :: "world \<Rightarrow> action list \<Rightarrow> world" where
  "run w acts = foldl step w acts"

section \<open>Notions used in the statements and proofs\<close>

subsection \<open>Enumeration order\<close>

text \<open>
  A list of keys is in enumeration order when its array indices come first, in ascending
  numeric order.
\<close>

definition key_order :: "string list \<Rightarrow> bool" where
  "key_order ks = (\<exists>xs ys. ks = xs @ ys \<and> list_all is_array_index xs \<and> sorted (map index_value xs)
       \<and> list_all (\<lambda>k. \<not> is_array_index k) ys)"

subsection \<open>What createBreakpoints builds where the facility is available\<close>

text \<open>
  The handle that \<^verbatim>\<open>window.matchMedia\<close> makes for a query; the properties that
  assignments create on a new object (all but \<^verbatim>\<open>__proto__\<close>); the mapping that
  getInitialMatches builds; the memo, in which the i-th entry of the breakpoint set holds
  the i-th handle made (an entry \<^verbatim>\<open>__proto__\<close> gets a handle and no place in the memo); and the
  world after createBreakpoints.
\<close>

definition created :: "'v obj \<Rightarrow> 'v obj" where
  "created obj = filter (\<lambda>p. fst p \<noteq> ''__proto__'') obj"

definition new_mql :: "(string \<Rightarrow> bool) \<Rightarrow> string \<Rightarrow> mql" where
  "new_mql f query = \<lparr>mql_media = query, mql_matches = f query, mql_listeners = []\<rparr>"

definition initial_matches :: "(string \<Rightarrow> bool) \<Rightarrow> options \<Rightarrow> val obj \<Rightarrow> val obj" where
  "initial_matches f opts breakpoints =
     map (\<lambda>(token, width). (token, Bool (f (mediaquery opts width)))) (created (entries breakpoints))"

definition handles :: "world \<Rightarrow> val obj \<Rightarrow> nat obj" where
  "handles w breakpoints =
     created (zip (map fst (entries breakpoints))
                  [length (mqls w)..<length (mqls w) + length (entries breakpoints)])"

definition constructed :: "world \<Rightarrow> (string \<Rightarrow> bool) \<Rightarrow> addr \<Rightarrow> options \<Rightarrow> world" where
  "constructed w f b opts =
     w\<lparr>mqls := mqls w @ map (\<lambda>(token, width). new_mql f (mediaquery opts width)) (entries (heap w ! b)),
       trace := trace w @ map (\<lambda>(token, width). MatchMedia (mediaquery opts width)) (entries (heap w ! b)),
       heap := heap w @ [initial_matches f opts (heap w ! b)],
       effects := effects w @ [WatchBreakpoints opts True (handles w (heap w ! b)) (length (heap w))]\<rparr>"

text \<open>The body of the loop of the effect, and the platform call that a cleanup makes.\<close>

definition subscribe :: "addr \<Rightarrow> world \<Rightarrow> string \<times> nat \<Rightarrow> world" where
  "subscribe matches w = (\<lambda>(token, mql).
     let listener = Listener matches token;
         w' = addEventListener w mql listener
     in onCleanup w' (RemoveListener mql listener))"

fun removal :: "cleanup \<Rightarrow> event" where
  "removal (RemoveListener m l) = RemoveEventListener m l"

subsection \<open>Scopes in which nothing listens\<close>

text \<open>
  \<open>shouldWatch\<close> is \<^verbatim>\<open>options.watchChange ?? true\<close>. An effect is inert when its function
  returns at once. A world is idle when no handle has a listener and its scope has no
  cleanup and no pending effect (a fresh scope, before any observer is created in it); it
  is quiet when its pending effects, if any, are inert.
\<close>

definition shouldWatch :: "options \<Rightarrow> bool" where
  "shouldWatch options = (case watchChange options of None \<Rightarrow> True | Some b \<Rightarrow> b)"

fun inert :: "effect \<Rightarrow> bool" where
  "inert (WatchBreakpoints options isMqSupported instances matches) =
     (\<not> shouldWatch options \<or> \<not> isMqSupported)"

definition idle :: "world \<Rightarrow> bool" where
  "idle w = (list_all (\<lambda>m. mql_listeners m = []) (mqls w) \<and> cleanups w = [] \<and> effects w = [])"

definition quiet :: "world \<Rightarrow> bool" where
  "quiet w = (list_all (\<lambda>m. mql_listeners m = []) (mqls w) \<and> cleanups w = [] \<and> list_all inert (effects w))"

subsection \<open>What the platform has recorded\<close>

text \<open>The listeners registered and the listeners removed, as (handle, listener) pairs, in order.\<close>

fun registrations :: "event list \<Rightarrow> (nat \<times> listener) list" where
  "registrations [] = []"
| "registrations (AddEventListener m l # es) = (m, l) # registrations es"
| "registrations (e # es) = registrations es"

fun removals :: "event list \<Rightarrow> (nat \<times> listener) list" where
  "removals [] = []"
| "removals (RemoveEventListener m l # es) = (m, l) # removals es"
| "removals (e # es) = removals es"

fun is_Change :: "action \<Rightarrow> bool" where
  "is_Change (Change m v) = True"
| "is_Change act = False"

subsection \<open>The phases of a watching observer\<close>

text \<open>
  An observer that watches is constructed, then watching (once its scope is mounted), then
  disposed; a scope disposed before it is mounted goes from constructed to disposed.
  \<open>in_phase a opts ks n ph s\<close> says what the world \<open>s\<close> holds in phase \<open>ph\<close> of the observer
  whose store is \<open>a\<close> and whose breakpoint keys are \<open>ks\<close>, created when there were \<open>n\<close>
  handles: the pending effect, the cleanups and the listeners of every handle. \<open>emitted\<close>
  and \<open>written\<close> say what a step in a phase adds to the trace and does to the heap;
  \<open>run_trace\<close> and \<open>run_heap\<close> do so for a sequence of steps.
\<close>

datatype phase = Constructed | Watching | Disposed

fun next_phase :: "phase \<Rightarrow> action \<Rightarrow> phase" where
  "next_phase Constructed Mount = Watching"
| "next_phase Constructed (Change m v) = Constructed"
| "next_phase Constructed Dispose = Disposed"
| "next_phase Watching Dispose = Disposed"
| "next_phase Watching act = Watching"
| "next_phase Disposed act = Disposed"

definition phase_after :: "action list \<Rightarrow> phase" where
  "phase_after acts = foldl next_phase Constructed acts"

fun in_phase :: "addr \<Rightarrow> options \<Rightarrow> string list \<Rightarrow> nat \<Rightarrow> phase \<Rightarrow> world \<Rightarrow> bool" where
  "in_phase a opts ks n Constructed s =
     (effects s = [WatchBreakpoints opts True (zip ks [n..<n + length ks]) a] \<and> cleanups s = [] \<and>
      map mql_listeners (mqls s) = replicate (n + length ks) [])"
| "in_phase a opts ks n Watching s =
     (effects s = [] \<and>
      cleanups s = map (\<lambda>(k, m). RemoveListener m (Listener a k)) (zip ks [n..<n + length ks]) \<and>
      map mql_listeners (mqls s) = replicate n [] @ map (\<lambda>k. [Listener a k]) ks)"
| "in_phase a opts ks n Disposed s =
     (effects s = [] \<and> cleanups s = [] \<and>
      map mql_listeners (mqls s) = replicate (n + length ks) [])"

fun emitted :: "addr \<Rightarrow> string list \<Rightarrow> nat \<Rightarrow> phase \<Rightarrow> action \<Rightarrow> event list" where
  "emitted a ks n Constructed Mount =
     map (\<lambda>(k, m). AddEventListener m (Listener a k)) (zip ks [n..<n + length ks])"
| "emitted a ks n Watching Dispose =
     rev (map (\<lambda>(k, m). RemoveEventListener m (Listener a k)) (zip ks [n..<n + length ks]))"
| "emitted a ks n ph act = []"

fun written :: "addr \<Rightarrow> string list \<Rightarrow> nat \<Rightarrow> phase \<Rightarrow> action \<Rightarrow> val obj list \<Rightarrow> val obj list" where
  "written a ks n Watching (Change m v) h =
     (if n \<le> m \<and> m < n + length ks then set_prop h a (ks ! (m - n)) (Bool v) else h)"
| "written a ks n ph act h = h"

fun run_trace :: "addr \<Rightarrow> string list \<Rightarrow> nat \<Rightarrow> phase \<Rightarrow> action list \<Rightarrow> event list" where
  "run_trace a ks n ph [] = []"
| "run_trace a ks n ph (act # acts) = emitted a ks n ph act @ run_trace a ks n (next_phase ph act) acts"

fun run_heap :: "addr \<Rightarrow> string list \<Rightarrow> nat \<Rightarrow> phase \<Rightarrow> action list \<Rightarrow> val obj list \<Rightarrow> val obj list" where
  "run_heap a ks n ph [] h = h"
| "run_heap a ks n ph (act # acts) h = run_heap a ks n (next_phase ph act) acts (written a ks n ph act h)"

subsection \<open>Forgetting the fallback\<close>

text \<open>A world with options.fallbackMatch removed from the options its pending effects hold.\<close>

fun erase_effect :: "effect \<Rightarrow> effect" where
  "erase_effect (WatchBreakpoints options isMqSupported instances matches) =
     WatchBreakpoints (options\<lparr>fallbackMatch := None\<rparr>) isMqSupported instances matches"

definition erase :: "world \<Rightarrow> world" where
  "erase w = w\<lparr>effects := map erase_effect (effects w)\<rparr>"

subsection \<open>Examples\<close>

text \<open>
  The breakpoint set of the package's tests, one whose keys are array indices, a fallback,
  options, and three worlds with a fresh scope: a browser in which only the query
  "(min-width: 640px)" matches, a browser without \<^verbatim>\<open>window.matchMedia\<close>, and a server.
\<close>

definition example_breakpoints :: "val obj" where
  "example_breakpoints = [(''sm'', Str ''640px''), (''lg'', Str ''1024px''), (''xl'', Str ''1280px'')]"

definition numeric_breakpoints :: "val obj" where
  "numeric_breakpoints = [(''1024'', Str ''1024px''), (''640'', Str ''640px'')]"

definition example_fallback :: "val obj" where
  "example_fallback = [(''sm'', Bool True), (''lg'', Bool True), (''xl'', Bool True)]"


definition unwatched_options :: options where
  "unwatched_options = \<lparr>responsiveMode = None, watchChange = Some False, fallbackMatch = None\<rparr>"

definition fallback_options :: options where
  "fallback_options = \<lparr>responsiveMode = None, watchChange = None, fallbackMatch = Some 1\<rparr>"

definition browser :: "val obj list \<Rightarrow> world" where
  "browser h = \<lparr>isServer = False, matchMedia = Some (\<lambda>query. query = ''(min-width: 640px)''),
     heap = h, mqls = [], signals = [], owner = True, effects = [], cleanups = [], trace = []\<rparr>"

definition without_matchMedia :: "val obj list \<Rightarrow> world" where
  "without_matchMedia h = \<lparr>isServer = False, matchMedia = None,
     heap = h, mqls = [], signals = [], owner = True, effects = [], cleanups = [], trace = []\<rparr>"

definition server :: "val obj list \<Rightarrow> world" where
  "server h = \<lparr>isServer = True, matchMedia = None,
     heap = h, mqls = [], signals = [], owner = True, effects = [], cleanups = [], trace = []\<rparr>"

text \<open>A breakpoint set that has an own property \<^verbatim>\<open>__proto__\<close>.\<close>

definition proto_breakpoints :: "val obj" where
  "proto_breakpoints = [(''__proto__'', Str ''640px''), (''sm'', Str ''640px'')]"

section \<open>Objects and their enumeration\<close>

lemma keys_assign: "keys (assign obj key v) = keys obj \<union> ({key} - {''__proto__''})"
  by (induction obj key v rule: assign.induct) (auto simp: keys_def)

lemma keys_assign_own: "key \<in> keys obj \<or> key \<noteq> ''__proto__'' \<Longrightarrow> keys (assign obj key v) = insert key (keys obj)"
  by (auto simp: keys_assign)

lemma get_assign:
  "key \<in> keys obj \<or> key \<noteq> ''__proto__'' \<Longrightarrow>
   get (assign obj key v) k = (if k = key then Some v else get obj k)"
  by (induction obj key v rule: assign.induct) (force simp: get_def keys_def)+

lemma assign_new:
  "key \<notin> keys obj \<Longrightarrow> key \<noteq> ''__proto__'' \<Longrightarrow> assign obj key v = obj @ [(key, v)]"
  by (induction obj key v rule: assign.induct) (auto simp: keys_def)

lemma assign_proto: "''__proto__'' \<notin> keys obj \<Longrightarrow> assign obj ''__proto__'' v = obj"
  by (induction obj "''__proto__''" v rule: assign.induct) (auto simp: keys_def)

lemma created_id: "''__proto__'' \<notin> keys obj \<Longrightarrow> created obj = obj"
  by (induction obj) (auto simp: created_def keys_def)

lemma keys_created: "keys (created obj) = keys obj - {''__proto__''}"
  by (auto simp: created_def keys_def)

lemma keys_zip: "length ks = length ns \<Longrightarrow> keys (zip ks ns) = set ks"
  unfolding keys_def by (metis set_map map_fst_zip)

lemma distinct_created: "distinct (map fst obj) \<Longrightarrow> distinct (map fst (created obj))"
  by (simp add: created_def distinct_map_filter)

lemma get_created: "get (created obj) key = (if key = ''__proto__'' then None else get obj key)"
  by (induction obj) (auto simp: created_def get_def)

lemma distinct_assign: "distinct (map fst obj) \<Longrightarrow> distinct (map fst (assign obj key v))"
  by (induction obj key v rule: assign.induct) (auto simp: keys_assign [unfolded keys_def])

lemma values_assign: "set (assign obj key v) \<subseteq> insert (key, v) (set obj)"
  by (induction obj key v rule: assign.induct) auto

lemma set_entries: "set (entries obj) = set obj"
  by (auto simp: entries_def)

lemma keys_entries: "keys (entries obj) = keys obj"
  by (simp add: keys_def set_entries)

lemma length_entries: "length (entries obj) = length obj"
  by (simp add: entries_def sum_length_filter_compl)


lemma key_order_entries: "key_order (map fst (entries obj))"
  unfolding key_order_def entries_def
  apply (rule exI [of _ "map fst (sort_key (\<lambda>p. index_value (fst p)) (filter (\<lambda>p. is_array_index (fst p)) obj))"])
  apply (rule exI [of _ "map fst (filter (\<lambda>p. \<not> is_array_index (fst p)) obj)"])
  apply (simp add: list_all_iff)
  using sorted_sort_key [of "\<lambda>p. index_value (fst p)"] by (simp add: comp_def)

lemma entries_fixed: 
  assumes "key_order (map fst obj)" shows "entries obj = obj"
proof -
  from assms obtain xs ys where ks: "map fst obj = xs @ ys" and xs: "list_all is_array_index xs"
    and srt: "sorted (map index_value xs)" and ys: "list_all (\<lambda>k. \<not> is_array_index k) ys"
    unfolding key_order_def by blast
  define n where "n = length xs"
  have t: "map fst (take n obj) = xs" and d: "map fst (drop n obj) = ys"
    using ks by (simp_all add: n_def take_map [symmetric] drop_map [symmetric])
  have 1: "filter (\<lambda>p. is_array_index (fst p)) (take n obj) = take n obj"
    using xs unfolding t [symmetric] by (auto simp: list_all_iff filter_id_conv)
  have 2: "filter (\<lambda>p. is_array_index (fst p)) (drop n obj) = []"
    using ys unfolding d [symmetric] by (auto simp: list_all_iff filter_empty_conv)
  have 3: "filter (\<lambda>p. \<not> is_array_index (fst p)) (take n obj) = []"
    using xs unfolding t [symmetric] by (auto simp: list_all_iff filter_empty_conv)
  have 4: "filter (\<lambda>p. \<not> is_array_index (fst p)) (drop n obj) = drop n obj"
    using ys unfolding d [symmetric] by (auto simp: list_all_iff filter_id_conv)
  have 5: "sort_key (\<lambda>p. index_value (fst p)) (take n obj) = take n obj"
    using srt unfolding t [symmetric] by (intro sort_key_id_if_sorted) (simp add: comp_def)
  have "entries (take n obj @ drop n obj) = take n obj @ drop n obj"
    unfolding entries_def filter_append by (simp only: 1 2 3 4 5 append_Nil2 append_Nil)
  then show ?thesis by simp
qed

lemma entries_same_keys: "map fst obj = map fst (entries obj') \<Longrightarrow> entries obj = obj"
  by (rule entries_fixed) (simp add: key_order_entries)

lemma distinct_entries: "distinct (map fst (entries obj)) = distinct (map fst obj)"
proof -
  have "mset (entries obj) = mset obj"
    by (simp add: entries_def)
  then have "mset (map fst (entries obj)) = mset (map fst obj)" by simp
  then show ?thesis by (metis distinct_count_atmost_1 set_mset_mset)
qed

section \<open>Loops over entries\<close>

lemma foldl_assign_new:
  "distinct (map fst xs) \<Longrightarrow> keys xs \<inter> keys obj = {} \<Longrightarrow> ''__proto__'' \<notin> keys obj \<Longrightarrow>
   foldl (\<lambda>obj (k, x). assign obj k (g k x)) obj xs = obj @ map (\<lambda>(k, x). (k, g k x)) (created xs)"
proof (induction xs arbitrary: obj)
  case Nil
  then show ?case by (simp add: created_def)
next
  case (Cons p xs)
  obtain k x where p: "p = (k, x)" by (cases p)
  from Cons.prems have k: "k \<notin> keys obj" by (auto simp: p keys_def)
  show ?case
  proof (cases "k = ''__proto__''")
    case True
    have "keys xs \<inter> keys obj = {}" using Cons.prems by (auto simp: p keys_def)
    with Cons.IH [of obj] Cons.prems show ?thesis
      by (simp add: p True assign_proto created_def)
  next
    case False
    have "keys xs \<inter> keys (obj @ [(k, g k x)]) = {}"
      and "''__proto__'' \<notin> keys (obj @ [(k, g k x)])"
      using Cons.prems False by (auto simp: p keys_def)
    with Cons.IH [of "obj @ [(k, g k x)]"] Cons.prems show ?thesis
      by (simp add: p assign_new [OF k False] created_def False)
  qed
qed

lemma keys_simps: "keys [] = {}" "keys ((k, v) # ps) = insert k (keys ps)" "keys (ps @ qs) = keys ps \<union> keys qs"
  by (auto simp: keys_def)

lemma keys_foldl_assign:
  "keys (foldl (\<lambda>obj (k, x). assign obj k (g k x)) obj xs) = keys obj \<union> (keys xs - {''__proto__''})"
proof (induction xs arbitrary: obj)
  case Nil
  then show ?case by (simp add: keys_simps)
next
  case (Cons p xs)
  obtain k x where p: "p = (k, x)" by (cases p)
  show ?case by (auto simp: p Cons.IH keys_assign keys_simps)
qed

lemma foldl_set_prop:
  "a < length h \<Longrightarrow>
   foldl (\<lambda>h (k, x). set_prop h a k (g k x)) h xs
     = h[a := foldl (\<lambda>obj (k, x). assign obj k (g k x)) (h ! a) xs]"
proof (induction xs arbitrary: h)
  case Nil
  then show ?case by simp
next
  case (Cons p xs)
  obtain k x where p: "p = (k, x)" by (cases p)
  have "a < length (set_prop h a k (g k x))" using Cons.prems by (simp add: set_prop_def)
  from Cons.IH [OF this] Cons.prems show ?case
    by (simp add: p set_prop_def)
qed

lemma getEmptyMatchesFromBreakpoints_heap:
  assumes "b < length h"
  shows "getEmptyMatchesFromBreakpoints h b =
    (length h, h @ [foldl (\<lambda>obj (k, x). assign obj k (Bool False)) [] (entries (h ! b))])"
proof -
  have "length h < length (h @ [[]])" by simp
  from foldl_set_prop [OF this, of "\<lambda>k x. Bool False"] assms show ?thesis
    by (simp add: getEmptyMatchesFromBreakpoints_def new_object_def nth_append)
qed

lemma values_foldl_assign:
  "set (foldl (\<lambda>obj (k, x). assign obj k (g k x)) obj xs) \<subseteq> set obj \<union> (\<lambda>(k, x). (k, g k x)) ` set xs"
proof (induction xs arbitrary: obj)
  case Nil
  then show ?case by simp
next
  case (Cons p xs)
  obtain k x where p: "p = (k, x)" by (cases p)
  from Cons.IH [of "assign obj k (g k x)"] values_assign [of obj k "g k x"]
  show ?case by (auto simp: p)
qed

lemma distinct_foldl_assign:
  "distinct (map fst obj) \<Longrightarrow> distinct (map fst (foldl (\<lambda>obj (k, x). assign obj k (g k x)) obj xs))"
  by (induction xs arbitrary: obj) (auto simp: distinct_assign split: prod.splits)

section \<open>The memo of query handles\<close>

lemma window_matchMedia_Some:
  "matchMedia w = Some f \<Longrightarrow>
   window_matchMedia w query =
     Inr (length (mqls w), w\<lparr>mqls := mqls w @ [new_mql f query], trace := trace w @ [MatchMedia query]\<rparr>)"
  by (simp add: window_matchMedia_def new_mql_def)

lemma upt_add_Suc: "[n..<Suc (n + m)] = n # [Suc n..<Suc (n + m)]"
  by (simp add: upt_conv_Cons del: upt_Suc)

lemma forEach_matchMedia:
  assumes "matchMedia w = Some f"
  shows "forEach xs
           (\<lambda>(instances, w) (token, width).
              case window_matchMedia w (mediaquery opts width) of
                Inl e \<Rightarrow> Inl e
              | Inr (inst, w') \<Rightarrow> Inr (assign instances token inst, w'))
           (acc, w)
         = Inr (foldl (\<lambda>obj (k, m). assign obj k m) acc
                  (zip (map fst xs) [length (mqls w)..<length (mqls w) + length xs]),
                w\<lparr>mqls := mqls w @ map (\<lambda>(k, width). new_mql f (mediaquery opts width)) xs,
                  trace := trace w @ map (\<lambda>(k, width). MatchMedia (mediaquery opts width)) xs\<rparr>)"
    (is "forEach xs ?body (acc, w) = _")
  using assms
proof (induction xs arbitrary: acc w)
  case Nil
  then show ?case by simp
next
  case (Cons p xs)
  obtain k width where p: "p = (k, width)" by (cases p)
  define n where "n = length (mqls w)"
  define w1 where "w1 = w\<lparr>mqls := mqls w @ [new_mql f (mediaquery opts width)],
                         trace := trace w @ [MatchMedia (mediaquery opts width)]\<rparr>"
  have w1: "matchMedia w1 = Some f" and len: "length (mqls w1) = Suc n"
    using Cons.prems by (simp_all add: w1_def n_def)
  have "forEach (p # xs) ?body (acc, w) = forEach xs ?body (assign acc k n, w1)"
    by (simp add: p window_matchMedia_Some [OF Cons.prems] w1_def n_def)
  also have "\<dots> = Inr (foldl (\<lambda>obj (k, m). assign obj k m) (assign acc k n)
                  (zip (map fst xs) [Suc n..<Suc n + length xs]),
                w1\<lparr>mqls := mqls w1 @ map (\<lambda>(k, width). new_mql f (mediaquery opts width)) xs,
                  trace := trace w1 @ map (\<lambda>(k, width). MatchMedia (mediaquery opts width)) xs\<rparr>)"
    using Cons.IH [OF w1, of "assign acc k n"] by (simp only: len)
  also have "\<dots> = Inr (foldl (\<lambda>obj (k, m). assign obj k m) acc
                  (zip (map fst (p # xs)) [n..<n + length (p # xs)]),
                w\<lparr>mqls := mqls w @ map (\<lambda>(k, width). new_mql f (mediaquery opts width)) (p # xs),
                  trace := trace w @ map (\<lambda>(k, width). MatchMedia (mediaquery opts width)) (p # xs)\<rparr>)"
    by (simp add: p w1_def upt_add_Suc del: upt_Suc)
  finally show ?case by (simp only: n_def)
qed

lemma foldl_assign_id:
  "distinct (map fst xs) \<Longrightarrow> foldl (\<lambda>obj (k, m). assign obj k m) [] xs = created xs"
  using foldl_assign_new [of xs "[]" "\<lambda>k m. m"] by (simp add: keys_simps)

lemma mqlInstances_supported:
  assumes "matchMedia w = Some f" and "distinct (map fst (heap w ! b))"
  shows "mqlInstances w b opts True
    = Inr (handles w (heap w ! b),
           w\<lparr>mqls := mqls w @ map (\<lambda>(k, width). new_mql f (mediaquery opts width)) (entries (heap w ! b)),
             trace := trace w @ map (\<lambda>(k, width). MatchMedia (mediaquery opts width)) (entries (heap w ! b))\<rparr>)"
proof -
  have "distinct (map fst (zip (map fst (entries (heap w ! b)))
             [length (mqls w)..<length (mqls w) + length (entries (heap w ! b))]))"
    using assms(2) by (simp add: distinct_entries)
  then show ?thesis
    by (simp add: mqlInstances_def forEach_matchMedia [OF assms(1)] foldl_assign_id handles_def)
qed

section \<open>The initial match mapping\<close>

lemma foldl_assign_map:
  "distinct (map fst xs) \<Longrightarrow>
   foldl (\<lambda>obj (k, x). assign obj k (g k x)) [] xs = map (\<lambda>(k, x). (k, g k x)) (created xs)"
  using foldl_assign_new [of xs "[]" g] by (simp add: keys_simps)

lemma key_order_filter: "key_order ks \<Longrightarrow> key_order (filter P ks)"
proof -
  assume "key_order ks"
  then obtain xs ys where ks: "ks = xs @ ys" and xs: "list_all is_array_index xs"
    and srt: "sorted (map index_value xs)" and ys: "list_all (\<lambda>k. \<not> is_array_index k) ys"
    unfolding key_order_def by blast
  have "sorted (map index_value (filter P xs))"
    using srt by (rule sorted_filter)
  with xs ys show ?thesis
    unfolding key_order_def ks
    by (intro exI [of _ "filter P xs"] exI [of _ "filter P ys"]) (auto simp: list_all_iff)
qed

lemma created_zip_keys:
  "length E = length ns \<Longrightarrow>
   map fst (created (zip (map fst E) ns)) = filter (\<lambda>k. k \<noteq> ''__proto__'') (map fst E)"
  by (induction E ns rule: list_induct2) (auto simp: created_def)

lemma created_created: "created (created obj) = created obj"
  by (simp add: created_def)

lemma created_zip_map:
  "length E = length ns \<Longrightarrow>
   map (\<lambda>(k, m). (k, G m)) (created (zip (map fst E) ns))
     = map (\<lambda>(e, m). (fst e, G m)) (filter (\<lambda>p. fst (fst p) \<noteq> ''__proto__'') (zip E ns))"
  by (induction E ns rule: list_induct2) (auto simp: created_def)

lemma created_as_zip:
  "length E = length ns \<Longrightarrow>
   map H (created E) = map (\<lambda>(e, m). H e) (filter (\<lambda>p. fst (fst p) \<noteq> ''__proto__'') (zip E ns))"
  by (induction E ns rule: list_induct2) (auto simp: created_def)

lemma getInitialMatches_supported:
  assumes d: "distinct (map fst (entries B))"
  shows "getInitialMatches
      (w\<lparr>mqls := mqls w @ map (\<lambda>(k, width). new_mql f (mediaquery opts width)) (entries B), trace := t\<rparr>)
      b opts True (handles w B)
    = (length (heap w),
       w\<lparr>mqls := mqls w @ map (\<lambda>(k, width). new_mql f (mediaquery opts width)) (entries B), trace := t,
         heap := heap w @ [initial_matches f opts B]\<rparr>)"
proof -
  define E where "E = entries B"
  define n where "n = length (mqls w)"
  define I where "I = created (zip (map fst E) [n..<n + length E])"
  define M where "M = mqls w @ map (\<lambda>(k, width). new_mql f (mediaquery opts width)) E"
  have keysI: "map fst I = filter (\<lambda>k. k \<noteq> ''__proto__'') (map fst E)"
    using created_zip_keys [of E "[n..<n + length E]"] by (simp add: I_def)
  have "key_order (map fst I)"
    unfolding keysI E_def by (rule key_order_filter) (rule key_order_entries)
  then have eI: "entries I = I" by (rule entries_fixed)
  have dI: "distinct (map fst I)" using d by (simp add: keysI E_def)
  have cI: "created I = I" by (simp add: I_def created_created)
  have len: "length E = length [n..<n + length E]" by simp
  have vals: "map (\<lambda>(k, m). (k, Bool (mql_matches (M ! m)))) I
            = map (\<lambda>(token, width). (token, Bool (f (mediaquery opts width)))) (created E)"
    unfolding I_def created_zip_map [OF len, of "\<lambda>m. Bool (mql_matches (M ! m))"]
      created_as_zip [OF len, of "\<lambda>(token, width). (token, Bool (f (mediaquery opts width)))"]
    by (rule map_cong [OF refl])
       (auto simp: set_zip M_def n_def nth_append new_mql_def split: prod.splits)
  have "length (heap w) < length (heap w @ [[]])" by simp
  from foldl_set_prop [OF this, of "\<lambda>k m. Bool (mql_matches (M ! m))" I]
  have "foldl (\<lambda>h (k, m). set_prop h (length (heap w)) k (Bool (mql_matches (M ! m)))) (heap w @ [[]]) I
      = heap w @ [map (\<lambda>(k, m). (k, Bool (mql_matches (M ! m)))) I]"
    by (simp add: foldl_assign_map [OF dI] cI)
  then show ?thesis
    unfolding getInitialMatches_def new_object_def initial_matches_def handles_def
    by (simp add: E_def [symmetric] n_def [symmetric] I_def [symmetric] M_def [symmetric] eI vals)
qed

section \<open>Closed forms of createBreakpoints\<close>

lemma checkMqSupported_iff: "checkMqSupported w \<longleftrightarrow> \<not> isServer w \<and> (\<exists>f. matchMedia w = Some f)"
  by (auto simp: checkMqSupported_def)

lemma createBreakpoints_supported:
  assumes "checkMqSupported w" and "matchMedia w = Some f" and "distinct (map fst (heap w ! b))"
  shows "createBreakpoints w b opts = Inr (length (heap w), constructed w f b opts)"
proof -
  have d: "distinct (map fst (entries (heap w ! b)))"
    using assms(3) by (simp add: distinct_entries)
  show ?thesis
    unfolding createBreakpoints_def
    by (simp add: assms(1) mqlInstances_supported [OF assms(2,3)]
        getInitialMatches_supported [OF d] createEffect_def constructed_def)
qed

lemma createBreakpoints_unsupported_fallback:
  assumes "\<not> checkMqSupported w" and "fallbackMatch opts = Some F"
  shows "createBreakpoints w b opts
       = Inr (F, w\<lparr>effects := effects w @ [WatchBreakpoints opts False [] F]\<rparr>)"
  using assms
  by (simp add: createBreakpoints_def mqlInstances_def getInitialMatches_def createEffect_def)

lemma trace_mqlInstances:
  assumes "matchMedia w = Some f"
  shows "\<exists>memo w1. mqlInstances w b opts True = Inr (memo, w1) \<and> heap w1 = heap w \<and>
     trace w1 = trace w @ map (\<lambda>(token, width). MatchMedia (mediaquery opts width)) (entries (heap w ! b))"
  by (simp add: mqlInstances_def forEach_matchMedia [OF assms])

lemma trace_getInitialMatches: "trace (snd (getInitialMatches w b opts s memo)) = trace w"
  by (simp add: getInitialMatches_def new_object_def split: prod.splits option.splits)

lemma trace_createBreakpoints:
  assumes "checkMqSupported w"
  shows "\<exists>a w'. createBreakpoints w b opts = Inr (a, w') \<and>
     trace w' = trace w @ map (\<lambda>(token, width). MatchMedia (mediaquery opts width)) (entries (heap w ! b))"
proof -
  from assms obtain f where f: "matchMedia w = Some f" by (auto simp: checkMqSupported_iff)
  from trace_mqlInstances [OF f, of b opts] obtain memo w1 where
    m: "mqlInstances w b opts True = Inr (memo, w1)" and
    t: "trace w1 = trace w @ map (\<lambda>(token, width). MatchMedia (mediaquery opts width)) (entries (heap w ! b))"
    by blast
  obtain a w2 where g: "getInitialMatches w1 b opts True memo = (a, w2)"
    by (cases "getInitialMatches w1 b opts True memo")
  with trace_getInitialMatches [of w1 b opts True memo] have "trace w2 = trace w1" by simp
  then show ?thesis
    by (simp add: createBreakpoints_def assms m t g createEffect_def)
qed

section \<open>The shared helper\<close>

lemma is_array_index_examples:
  "\<not> is_array_index ''sm''" "\<not> is_array_index ''lg''" "\<not> is_array_index ''xl''"
  "is_array_index ''640''" "is_array_index ''1024''"
  "index_value ''640'' = 640" "index_value ''1024'' = 1024" "\<not> is_array_index ''__proto__''"
  by (simp_all add: is_array_index_def index_value_def digit_value_def is_digit_def)

lemma entries_examples:
  "entries example_breakpoints = example_breakpoints"
  "entries numeric_breakpoints = [(''640'', Str ''640px''), (''1024'', Str ''1024px'')]"
  "entries proto_breakpoints = proto_breakpoints"
  by (simp_all add: entries_def example_breakpoints_def numeric_breakpoints_def proto_breakpoints_def
      is_array_index_examples)

lemma getEmptyMatchesFromBreakpoints_keys:
  assumes "b < length h"
  shows "keys (snd (getEmptyMatchesFromBreakpoints h b) ! fst (getEmptyMatchesFromBreakpoints h b))
           = keys (h ! b) - {''__proto__''}"
    and "snd ` set (snd (getEmptyMatchesFromBreakpoints h b) ! fst (getEmptyMatchesFromBreakpoints h b))
           \<subseteq> {Bool False}"
proof -
  let ?m = "foldl (\<lambda>obj (k, x). assign obj k (Bool False)) [] (entries (h ! b))"
  have r: "getEmptyMatchesFromBreakpoints h b = (length h, h @ [?m])"
    by (rule getEmptyMatchesFromBreakpoints_heap [OF assms])
  show "keys (snd (getEmptyMatchesFromBreakpoints h b) ! fst (getEmptyMatchesFromBreakpoints h b))
           = keys (h ! b) - {''__proto__''}"
    by (simp add: r keys_foldl_assign [of "\<lambda>k x. Bool False"] keys_simps keys_entries)
  show "snd ` set (snd (getEmptyMatchesFromBreakpoints h b) ! fst (getEmptyMatchesFromBreakpoints h b))
           \<subseteq> {Bool False}"
    using values_foldl_assign [of "\<lambda>k x. Bool False" "[]" "entries (h ! b)"] by (auto simp: r)
qed

lemma getEmptyMatchesFromBreakpoints_proto_breakpoints:
  "getEmptyMatchesFromBreakpoints [proto_breakpoints] 0 = (1, [proto_breakpoints, [(''sm'', Bool False)]])"
  by (simp add: getEmptyMatchesFromBreakpoints_def new_object_def set_prop_def entries_examples)
     (simp add: proto_breakpoints_def)

text \<open>
  The claim as it is written fails on a breakpoint set that has an own key \<^verbatim>\<open>__proto__\<close>.
  For the breakpoint set with the own keys \<^verbatim>\<open>__proto__\<close> and \<^verbatim>\<open>sm\<close> the helper returns a
  mapping with the one key \<^verbatim>\<open>sm\<close>: \<^verbatim>\<open>matches["__proto__"] = false\<close> calls the inherited
  setter, which ignores a boolean, and creates no property. The key set of the mapping is
  not the key set of the breakpoint set.
\<close>

theorem getEmptyMatchesFromBreakpoints_proto_counterexample:
  "getEmptyMatchesFromBreakpoints [proto_breakpoints] 0
     = (1, [proto_breakpoints, [(''sm'', Bool False)]]) \<and>
   keys ([proto_breakpoints] ! 0) = {''__proto__'', ''sm''} \<and>
   \<not> (case getEmptyMatchesFromBreakpoints [proto_breakpoints] 0 of
           (matches, h') \<Rightarrow> keys (h' ! matches) = keys ([proto_breakpoints] ! 0))"
  by (simp add: getEmptyMatchesFromBreakpoints_proto_breakpoints)
     (simp add: proto_breakpoints_def keys_def)

text \<open>
  C9 (as amended). getEmptyMatchesFromBreakpoints returns a new object whose keys are the
  keys of the breakpoint set other than \<^verbatim>\<open>__proto__\<close> (so all its keys, when the breakpoint set
  has no own key \<^verbatim>\<open>__proto__\<close>) and whose values are all false, and its only effect is the
  allocation of that object: every object that existed before, the breakpoint set among
  them, is unchanged.
\<close>

theorem getEmptyMatchesFromBreakpoints_pure:
  assumes "b < length h"
  shows "case getEmptyMatchesFromBreakpoints h b of
           (matches, h') \<Rightarrow>
             keys (h' ! matches) = keys (h ! b) - {''__proto__''} \<and>
             (''__proto__'' \<notin> keys (h ! b) \<longrightarrow> keys (h' ! matches) = keys (h ! b)) \<and>
             snd ` set (h' ! matches) \<subseteq> {Bool False} \<and>
             (\<forall>key \<in> keys (h ! b) - {''__proto__''}. get (h' ! matches) key = Some (Bool False)) \<and>
             matches = length h \<and> h' = h @ [h' ! matches] \<and> h' ! b = h ! b"
proof -
  let ?m = "foldl (\<lambda>obj (k, x). assign obj k (Bool False)) [] (entries (h ! b))"
  have k: "keys ?m = keys (h ! b) - {''__proto__''}"
    by (simp add: keys_foldl_assign [of "\<lambda>k x. Bool False"] keys_simps keys_entries)
  then have k': "''__proto__'' \<notin> keys (h ! b) \<longrightarrow> keys ?m = keys (h ! b)"
    by simp
  have v: "snd ` set ?m \<subseteq> {Bool False}"
    using values_foldl_assign [of "\<lambda>k x. Bool False" "[]" "entries (h ! b)"] by auto
  have g: "get ?m key = Some (Bool False)" if "key \<in> keys (h ! b) - {''__proto__''}" for key
  proof -
    from that k have "key \<in> fst ` set ?m" by (simp add: keys_def)
    then obtain u where "(key, u) \<in> set ?m" by force
    moreover from this v have "u = Bool False" by force
    moreover have "distinct (map fst ?m)"
      by (rule distinct_foldl_assign) simp
    ultimately show ?thesis by (simp add: get_def)
  qed
  show ?thesis
    using k k' v g assms by (simp add: getEmptyMatchesFromBreakpoints_heap nth_append)
qed

theorem getEmptyMatchesFromBreakpoints_pure_witness:
  "(0::nat) < length [example_breakpoints] \<and>
   ''__proto__'' \<notin> keys ([example_breakpoints] ! 0) \<and>
   getEmptyMatchesFromBreakpoints [example_breakpoints] 0
     = (1, [example_breakpoints, [(''sm'', Bool False), (''lg'', Bool False), (''xl'', Bool False)]]) \<and>
   (case getEmptyMatchesFromBreakpoints [example_breakpoints] 0 of
           (matches, h') \<Rightarrow>
             keys (h' ! matches) = keys ([example_breakpoints] ! 0) \<and>
             snd ` set (h' ! matches) \<subseteq> {Bool False} \<and>
             matches = length [example_breakpoints] \<and> h' ! 0 = [example_breakpoints] ! 0)"
  using getEmptyMatchesFromBreakpoints_pure [of 0 "[example_breakpoints]"]
  by (simp add: getEmptyMatchesFromBreakpoints_def new_object_def set_prop_def entries_examples)
     (simp add: example_breakpoints_def keys_def)

section \<open>Query strings\<close>

lemma mediaquery_cases:
  "mediaquery opts width =
     (if responsiveMode opts = Some ''desktop-first'' then ''(max-width: '' @ toString width @ '')''
      else ''(min-width: '' @ toString width @ '')'')"
  by (simp add: mediaquery_def)

lemma browser_simps:
  "isServer (browser h) = False" "matchMedia (browser h) = Some (\<lambda>query. query = ''(min-width: 640px)'')"
  "heap (browser h) = h" "mqls (browser h) = []" "effects (browser h) = []" "cleanups (browser h) = []"
  "trace (browser h) = []" "signals (browser h) = []" "checkMqSupported (browser h)"
  by (simp_all add: browser_def checkMqSupported_def)




section \<open>Initial values\<close>

lemma get_handles:
  assumes "distinct (map fst B)" and "i < length (entries B)" and "fst (entries B ! i) \<noteq> ''__proto__''"
  shows "get (handles w B) (fst (entries B ! i)) = Some (length (mqls w) + i)"
proof -
  have "map_of (zip (map fst (entries B)) [length (mqls w)..<length (mqls w) + length (entries B)])
          (map fst (entries B) ! i)
        = Some ([length (mqls w)..<length (mqls w) + length (entries B)] ! i)"
    using assms(1,2) by (intro map_of_zip_nth) (simp_all add: distinct_entries)
  with assms(2,3) show ?thesis by (simp add: get_created handles_def) (simp add: get_def)
qed

lemma get_initial_matches:
  assumes "distinct (map fst B)" and "(token, width) \<in> set B" and "token \<noteq> ''__proto__''"
  shows "get (initial_matches f opts B) token = Some (Bool (f (mediaquery opts width)))"
proof -
  have "distinct (map fst (entries B))" "(token, width) \<in> set (entries B)"
    using assms by (simp_all add: distinct_entries set_entries)
  then have "map_of (entries B) token = Some width" by simp
  with assms(3) have "map_of (created (entries B)) token = Some width"
    using get_created [of "entries B" token] by (simp add: get_def)
  then show ?thesis
    by (simp add: get_def initial_matches_def map_of_map [unfolded comp_def] case_prod_unfold
        map_of_map [of "\<lambda>width. Bool (f (mediaquery opts width))", unfolded case_prod_unfold comp_def])
qed

lemma keys_initial_matches: "keys (initial_matches f opts B) = keys B - {''__proto__''}"
proof -
  have "keys (initial_matches f opts B) = keys (created (entries B))"
    by (force simp: keys_def initial_matches_def)
  then show ?thesis by (simp add: keys_created keys_entries)
qed

lemma mqls_constructed:
  assumes "i < length (entries (heap w ! b))"
  shows "mqls (constructed w f b opts) ! (length (mqls w) + i)
       = new_mql f (mediaquery opts (snd (entries (heap w ! b) ! i)))"
  using assms by (simp add: constructed_def nth_append case_prod_unfold)

lemma constructed_proto_breakpoints:
  "createBreakpoints (browser [proto_breakpoints]) 0 no_options
     = Inr (1, constructed (browser [proto_breakpoints]) (\<lambda>query. query = ''(min-width: 640px)'') 0 no_options)"
  "heap (constructed (browser [proto_breakpoints]) (\<lambda>query. query = ''(min-width: 640px)'') 0 no_options)
     = [proto_breakpoints, [(''sm'', Bool True)]]"
  "mqls (constructed (browser [proto_breakpoints]) (\<lambda>query. query = ''(min-width: 640px)'') 0 no_options)
     = [\<lparr>mql_media = ''(min-width: 640px)'', mql_matches = True, mql_listeners = []\<rparr>,
        \<lparr>mql_media = ''(min-width: 640px)'', mql_matches = True, mql_listeners = []\<rparr>]"
  "effects (constructed (browser [proto_breakpoints]) (\<lambda>query. query = ''(min-width: 640px)'') 0 no_options)
     = [WatchBreakpoints no_options True [(''sm'', 1)] 1]"
  "cleanups (constructed (browser [proto_breakpoints]) (\<lambda>query. query = ''(min-width: 640px)'') 0 no_options)
     = []"
  "trace (constructed (browser [proto_breakpoints]) (\<lambda>query. query = ''(min-width: 640px)'') 0 no_options)
     = [MatchMedia ''(min-width: 640px)'', MatchMedia ''(min-width: 640px)'']"
proof -
  show "createBreakpoints (browser [proto_breakpoints]) 0 no_options
     = Inr (1, constructed (browser [proto_breakpoints]) (\<lambda>query. query = ''(min-width: 640px)'') 0 no_options)"
    using createBreakpoints_supported [of "browser [proto_breakpoints]" _ 0 no_options]
    by (simp add: browser_simps) (simp add: proto_breakpoints_def)
qed (simp_all add: constructed_def browser_simps entries_examples [unfolded proto_breakpoints_def]
      initial_matches_def handles_def created_def new_mql_def mediaquery_cases no_options_def
      proto_breakpoints_def)

text \<open>
  The claim as it is written fails on a breakpoint set that has an own key \<^verbatim>\<open>__proto__\<close>.
  For the breakpoint set with the own keys \<^verbatim>\<open>__proto__\<close> and \<^verbatim>\<open>sm\<close>,
  both of width 640px, in a browser in which that query matches, a handle is built for
  each key and both handles match; the returned mapping has the value true at \<^verbatim>\<open>sm\<close> and no
  value at the breakpoint key \<^verbatim>\<open>__proto__\<close>: \<^verbatim>\<open>matches["__proto__"] = mql.matches\<close> would create
  no property, and the memo has no entry for that key either, so the loop of
  getInitialMatches never comes to it.
\<close>

theorem createBreakpoints_initial_matches_counterexample:
  "(''__proto__'', Str ''640px'') \<in> set (heap (browser [proto_breakpoints]) ! 0) \<and>
   (case createBreakpoints (browser [proto_breakpoints]) 0 no_options of
      Inl e \<Rightarrow> False
    | Inr (matches, w') \<Rightarrow>
        map mql_media (mqls w') = [''(min-width: 640px)'', ''(min-width: 640px)''] \<and>
        map mql_matches (mqls w') = [True, True] \<and>
        heap w' ! matches = [(''sm'', Bool True)] \<and>
        get (heap w' ! matches) ''__proto__'' = None \<and>
        keys (heap w' ! matches) \<noteq> keys (heap (browser [proto_breakpoints]) ! 0)) \<and>
   (case mqlInstances (browser [proto_breakpoints]) 0 no_options True of
      Inl e \<Rightarrow> False
    | Inr (memo, w1) \<Rightarrow> memo = [(''sm'', 1)] \<and> get memo ''__proto__'' = None)"
proof -
  have "mqlInstances (browser [proto_breakpoints]) 0 no_options True
      = Inr (handles (browser [proto_breakpoints]) proto_breakpoints,
             (browser [proto_breakpoints])\<lparr>mqls := mqls (browser [proto_breakpoints]) @
                 map (\<lambda>(k, width). new_mql (\<lambda>query. query = ''(min-width: 640px)'') (mediaquery no_options width))
                   (entries proto_breakpoints),
               trace := trace (browser [proto_breakpoints]) @
                 map (\<lambda>(k, width). MatchMedia (mediaquery no_options width)) (entries proto_breakpoints)\<rparr>)"
    using mqlInstances_supported [of "browser [proto_breakpoints]" _ 0 no_options]
    by (simp add: browser_simps) (simp add: proto_breakpoints_def)
  moreover have "handles (browser [proto_breakpoints]) proto_breakpoints = [(''sm'', 1)]"
    by (simp add: handles_def entries_examples browser_simps created_def) (simp add: proto_breakpoints_def)
  ultimately show ?thesis
    by (simp add: constructed_proto_breakpoints browser_simps get_def keys_def)
       (auto simp: proto_breakpoints_def)
qed

text \<open>
  C2 (as amended). For a breakpoint set that has no own key \<^verbatim>\<open>__proto__\<close>: when the query
  facility is available, then right after construction the value of the returned mapping
  at each breakpoint key is the match state of the handle that the memo holds for that
  key; the handle is the one made for the key's own query, and its match state is what the
  platform answers for that query alone, so the value does not depend on the match state
  of any other key's query. The mapping has the keys of the breakpoint set.
\<close>

theorem createBreakpoints_initial_matches:
  assumes "\<not> isServer w" and "matchMedia w = Some f"
    and "distinct (map fst (heap w ! b))" and "(token, width) \<in> set (heap w ! b)"
    and "''__proto__'' \<notin> keys (heap w ! b)"
  shows "\<exists>memo w1 matches w' m.
           mqlInstances w b opts True = Inr (memo, w1) \<and>
           createBreakpoints w b opts = Inr (matches, w') \<and>
           get memo token = Some m \<and>
           mql_media (mqls w' ! m) = mediaquery opts width \<and>
           get (heap w' ! matches) token = Some (Bool (mql_matches (mqls w' ! m))) \<and>
           mql_matches (mqls w' ! m) = f (mediaquery opts width) \<and>
           keys (heap w' ! matches) = keys (heap w ! b)"
proof -
  let ?B = "heap w ! b"
  have sup: "checkMqSupported w" using assms(1,2) by (simp add: checkMqSupported_iff)
  from assms(4,5) have t: "token \<noteq> ''__proto__''" by (force simp: keys_def)
  from assms(4) have "(token, width) \<in> set (entries ?B)" by (simp add: set_entries)
  then obtain i where i: "i < length (entries ?B)" and ei: "entries ?B ! i = (token, width)"
    by (auto simp: in_set_conv_nth)
  let ?w' = "constructed w f b opts"
  have m: "get (handles w ?B) token = Some (length (mqls w) + i)"
    using get_handles [OF assms(3) i, where w = w] t by (simp add: ei)
  have q: "mqls ?w' ! (length (mqls w) + i) = new_mql f (mediaquery opts width)"
    using mqls_constructed [OF i, where f = f and opts = opts] by (simp add: ei)
  have h: "heap ?w' ! length (heap w) = initial_matches f opts ?B"
    by (simp add: constructed_def)
  show ?thesis
    using mqlInstances_supported [OF assms(2,3), where opts = opts]
      createBreakpoints_supported [OF sup assms(2,3), where opts = opts]
      get_initial_matches [OF assms(3,4) t, where f = f and opts = opts] assms(5)
    by (simp add: m q h new_mql_def keys_initial_matches)
qed

theorem createBreakpoints_initial_matches_witness:
  "\<not> isServer (browser [example_breakpoints]) \<and>
   matchMedia (browser [example_breakpoints]) = Some (\<lambda>query. query = ''(min-width: 640px)'') \<and>
   distinct (map fst (heap (browser [example_breakpoints]) ! 0)) \<and>
   (''sm'', Str ''640px'') \<in> set (heap (browser [example_breakpoints]) ! 0) \<and>
   ''__proto__'' \<notin> keys (heap (browser [example_breakpoints]) ! 0) \<and>
   (\<exists>matches w'. createBreakpoints (browser [example_breakpoints]) 0 no_options = Inr (matches, w') \<and>
      get (heap w' ! matches) ''sm'' = Some (Bool True))"
proof -
  have 1: "\<not> isServer (browser [example_breakpoints])"
    and 2: "matchMedia (browser [example_breakpoints]) = Some (\<lambda>query. query = ''(min-width: 640px)'')"
    and 3: "distinct (map fst (heap (browser [example_breakpoints]) ! 0))"
    and 4: "(''sm'', Str ''640px'') \<in> set (heap (browser [example_breakpoints]) ! 0)"
    and 5: "''__proto__'' \<notin> keys (heap (browser [example_breakpoints]) ! 0)"
    by (simp_all add: browser_simps example_breakpoints_def keys_def)
  from createBreakpoints_initial_matches [OF 1 2 3 4 5, of no_options]
  have "\<exists>matches w'. createBreakpoints (browser [example_breakpoints]) 0 no_options = Inr (matches, w') \<and>
      get (heap w' ! matches) ''sm'' = Some (Bool True)"
    by (auto simp: mediaquery_cases no_options_def)
  with 1 2 3 4 5 show ?thesis by blast
qed

section \<open>Worlds in which nothing listens\<close>

lemma run_effect_inert: "inert e \<Longrightarrow> run_effect w e = w"
  by (cases e) (auto simp: shouldWatch_def)

lemma foldl_run_effect_inert: "list_all inert es \<Longrightarrow> foldl run_effect w es = w"
  by (induction es arbitrary: w) (simp_all add: run_effect_inert)

lemma quiet_mount: "quiet w \<Longrightarrow> mount w = w\<lparr>effects := []\<rparr>"
  by (simp add: mount_def quiet_def foldl_run_effect_inert)

lemma quiet_dispose: "quiet w \<Longrightarrow> dispose w = w\<lparr>effects := [], cleanups := []\<rparr>"
  by (simp add: dispose_def quiet_def)

lemma quiet_dispatch_change:
  assumes "quiet w"
  shows "dispatch_change w m b =
     (if m < length (mqls w) then w\<lparr>mqls := (mqls w)[m := (mqls w ! m)\<lparr>mql_matches := b\<rparr>]\<rparr> else w)"
proof (cases "m < length (mqls w)")
  case True
  with assms have "mql_listeners (mqls w ! m) = []"
    by (simp add: quiet_def list_all_length)
  with True show ?thesis by (simp add: dispatch_change_def Let_def)
next
  case False
  then show ?thesis by (simp add: dispatch_change_def)
qed

lemma list_all_update:
  "list_all P xs \<Longrightarrow> (m < length xs \<Longrightarrow> P x) \<Longrightarrow> list_all P (xs[m := x])"
  by (cases "m < length xs") (auto simp: list_all_length nth_list_update)

lemma quiet_step:
  assumes "quiet w"
  shows "quiet (step w act) \<and> heap (step w act) = heap w \<and> trace (step w act) = trace w
         \<and> signals (step w act) = signals w"
proof (cases act)
  case Mount
  with assms show ?thesis by (simp add: quiet_mount) (simp add: quiet_def)
next
  case (Change m b)
  have "list_all (\<lambda>m. mql_listeners m = []) ((mqls w)[m := (mqls w ! m)\<lparr>mql_matches := b\<rparr>])"
    using assms by (intro list_all_update) (simp_all add: quiet_def list_all_length)
  with assms Change show ?thesis
    by (simp add: quiet_dispatch_change) (simp add: quiet_def)
next
  case Dispose
  with assms show ?thesis by (simp add: quiet_dispose) (simp add: quiet_def)
qed

lemma quiet_run:
  "quiet w \<Longrightarrow> quiet (run w acts) \<and> heap (run w acts) = heap w \<and> trace (run w acts) = trace w
         \<and> signals (run w acts) = signals w"
proof (induction acts arbitrary: w)
  case Nil
  then show ?case by (simp add: run_def)
next
  case (Cons act acts)
  from quiet_step [OF Cons.prems, of act] Cons.IH [of "step w act"]
  show ?case by (simp add: run_def)
qed

lemma getInitialMatches_frame:
  "mqls (snd (getInitialMatches w b opts s memo)) = mqls w"
  "effects (snd (getInitialMatches w b opts s memo)) = effects w"
  "cleanups (snd (getInitialMatches w b opts s memo)) = cleanups w"
  "signals (snd (getInitialMatches w b opts s memo)) = signals w"
  by (simp_all add: getInitialMatches_def new_object_def split: prod.splits option.splits)

lemma createBreakpoints_frame:
  "\<exists>matches w' memo new.
     createBreakpoints w b opts = Inr (matches, w') \<and>
     effects w' = effects w @ [WatchBreakpoints opts (checkMqSupported w) memo matches] \<and>
     cleanups w' = cleanups w \<and> signals w' = signals w \<and>
     mqls w' = mqls w @ new \<and> list_all (\<lambda>m. mql_listeners m = []) new"
proof -
  obtain memo w1 new where m: "mqlInstances w b opts (checkMqSupported w) = Inr (memo, w1)"
    and w1: "effects w1 = effects w" "cleanups w1 = cleanups w" "signals w1 = signals w"
      "mqls w1 = mqls w @ new" "list_all (\<lambda>m. mql_listeners m = []) new"
  proof (cases "checkMqSupported w")
    case True
    then obtain f where f: "matchMedia w = Some f" by (auto simp: checkMqSupported_iff)
    let ?new = "map (\<lambda>(k, width). new_mql f (mediaquery opts width)) (entries (heap w ! b))"
    let ?memo = "foldl (\<lambda>obj (k, m). assign obj k m) []
                  (zip (map fst (entries (heap w ! b)))
                     [length (mqls w)..<length (mqls w) + length (entries (heap w ! b))])"
    let ?w1 = "w\<lparr>mqls := mqls w @ ?new,
                 trace := trace w @ map (\<lambda>(k, width). MatchMedia (mediaquery opts width)) (entries (heap w ! b))\<rparr>"
    have "mqlInstances w b opts (checkMqSupported w) = Inr (?memo, ?w1)"
      using True by (simp add: mqlInstances_def forEach_matchMedia [OF f])
    moreover have "list_all (\<lambda>m. mql_listeners m = []) ?new"
      by (induction "entries (heap w ! b)") (auto simp: new_mql_def list_all_iff)
    ultimately show ?thesis
      by (intro that [of ?memo ?w1 ?new]) simp_all
  next
    case False
    show ?thesis
      by (rule that [of "[]" w "[]"]) (simp_all add: False mqlInstances_def)
  qed
  obtain a w2 where g: "getInitialMatches w1 b opts (checkMqSupported w) memo = (a, w2)"
    by (cases "getInitialMatches w1 b opts (checkMqSupported w) memo")
  from getInitialMatches_frame [of w1 b opts "checkMqSupported w" memo] g w1
  have "effects w2 = effects w" "cleanups w2 = cleanups w" "signals w2 = signals w"
      "mqls w2 = mqls w @ new"
    by simp_all
  with w1(5) show ?thesis
    by (simp add: createBreakpoints_def m g createEffect_def)
qed

lemma createBreakpoints_quiet:
  assumes "idle w" and "\<not> shouldWatch opts \<or> \<not> checkMqSupported w"
  shows "\<exists>matches w'. createBreakpoints w b opts = Inr (matches, w') \<and> quiet w'"
proof -
  from createBreakpoints_frame [of w b opts] obtain matches w' memo new where
    "createBreakpoints w b opts = Inr (matches, w')"
    "effects w' = effects w @ [WatchBreakpoints opts (checkMqSupported w) memo matches]"
    "cleanups w' = cleanups w" "mqls w' = mqls w @ new" "list_all (\<lambda>m. mql_listeners m = []) new"
    by blast
  with assms show ?thesis by (auto simp: idle_def quiet_def)
qed

section \<open>Observers that do not watch\<close>

lemma server_simps:
  "isServer (server h) = True" "matchMedia (server h) = None"
  "heap (server h) = h" "mqls (server h) = []" "effects (server h) = []" "cleanups (server h) = []"
  "trace (server h) = []" "signals (server h) = []" "\<not> checkMqSupported (server h)"
  "idle (server h)" "idle (browser h)"
  by (simp_all add: server_def browser_def checkMqSupported_def idle_def)

lemma registrations_append_MatchMedia:
  "registrations (es @ map MatchMedia qs) = registrations es"
proof (induction es rule: registrations.induct)
  case 1
  show ?case by (induction qs) simp_all
qed simp_all

lemma trace_createBreakpoints_any:
  "\<exists>matches w' qs. createBreakpoints w b opts = Inr (matches, w') \<and> trace w' = trace w @ map MatchMedia qs"
proof (cases "checkMqSupported w")
  case True
  from trace_createBreakpoints [OF this, of b opts] obtain a w' where
    "createBreakpoints w b opts = Inr (a, w')"
    "trace w' = trace w @ map (\<lambda>(token, width). MatchMedia (mediaquery opts width)) (entries (heap w ! b))"
    by blast
  then have "createBreakpoints w b opts = Inr (a, w') \<and>
     trace w' = trace w @ map MatchMedia (map (\<lambda>(token, width). mediaquery opts width) (entries (heap w ! b)))"
    by (simp add: case_prod_unfold comp_def)
  then show ?thesis by blast
next
  case False
  obtain a w2 where g: "getInitialMatches w b opts False [] = (a, w2)"
    by (cases "getInitialMatches w b opts False []")
  with trace_getInitialMatches [of w b opts False "[]"] have "trace w2 = trace w" by simp
  then have "createBreakpoints w b opts = Inr (a, createEffect w2 (WatchBreakpoints opts False [] a))
     \<and> trace (createEffect w2 (WatchBreakpoints opts False [] a)) = trace w @ map MatchMedia []"
    by (simp add: createBreakpoints_def False mqlInstances_def g createEffect_def)
  then show ?thesis by blast
qed

text \<open>
  C7. With watchChange false, createBreakpoints registers no change listener, whether or
  not the query facility is available: construction adds no registration, and whatever
  happens to the scope afterwards (mounting, change notifications, disposal) the platform
  sees nothing more, no handle has a listener, and no object of the heap, the mapping
  among them, changes.
\<close>

theorem createBreakpoints_watchChange_false:
  assumes "idle w" and "watchChange opts = Some False"
  shows "\<exists>matches w'.
           createBreakpoints w b opts = Inr (matches, w') \<and>
           registrations (trace w') = registrations (trace w) \<and>
           (\<forall>acts. trace (run w' acts) = trace w' \<and>
                   list_all (\<lambda>m. mql_listeners m = []) (mqls (run w' acts)) \<and>
                   heap (run w' acts) = heap w')"
proof -
  have "\<not> shouldWatch opts \<or> \<not> checkMqSupported w"
    using assms(2) by (simp add: shouldWatch_def)
  from createBreakpoints_quiet [OF assms(1) this, of b] obtain matches w' where
    c: "createBreakpoints w b opts = Inr (matches, w')" and q: "quiet w'"
    by blast
  from trace_createBreakpoints_any [of w b opts] c obtain qs where
    "trace w' = trace w @ map MatchMedia qs" by auto
  then have r: "registrations (trace w') = registrations (trace w)"
    by (simp add: registrations_append_MatchMedia)
  have "trace (run w' acts) = trace w' \<and>
        list_all (\<lambda>m. mql_listeners m = []) (mqls (run w' acts)) \<and>
        heap (run w' acts) = heap w'" for acts
    using quiet_run [OF q, of acts] by (simp add: quiet_def)
  with c r show ?thesis by blast
qed

theorem createBreakpoints_watchChange_false_witness:
  "idle (browser [example_breakpoints]) \<and> watchChange unwatched_options = Some False \<and>
   (\<exists>matches w'.
      createBreakpoints (browser [example_breakpoints]) 0 unwatched_options = Inr (matches, w') \<and>
      registrations (trace (run w' [Mount, Change 1 True, Dispose])) = [] \<and>
      heap (run w' [Mount, Change 1 True, Dispose]) ! matches
        = [(''sm'', Bool True), (''lg'', Bool False), (''xl'', Bool False)])"
proof -
  have 1: "idle (browser [example_breakpoints])" by (simp add: server_simps)
  have 2: "watchChange unwatched_options = Some False" by (simp add: unwatched_options_def)
  have 3: "createBreakpoints (browser [example_breakpoints]) 0 unwatched_options
      = Inr (1, constructed (browser [example_breakpoints]) (\<lambda>query. query = ''(min-width: 640px)'') 0 unwatched_options)"
    using createBreakpoints_supported [of "browser [example_breakpoints]" _ 0 unwatched_options]
    by (simp add: browser_simps) (simp add: example_breakpoints_def)
  have 4: "heap (constructed (browser [example_breakpoints]) (\<lambda>query. query = ''(min-width: 640px)'') 0 unwatched_options) ! 1
      = [(''sm'', Bool True), (''lg'', Bool False), (''xl'', Bool False)]"
    by (simp add: constructed_def browser_simps initial_matches_def entries_examples mediaquery_cases
        unwatched_options_def) (simp add: example_breakpoints_def created_def)
  from createBreakpoints_watchChange_false [OF 1 2, of 0] 3 4
  have "registrations (trace (run (constructed (browser [example_breakpoints]) (\<lambda>query. query = ''(min-width: 640px)'') 0 unwatched_options) [Mount, Change 1 True, Dispose])) = [] \<and>
      heap (run (constructed (browser [example_breakpoints]) (\<lambda>query. query = ''(min-width: 640px)'') 0 unwatched_options) [Mount, Change 1 True, Dispose]) ! 1
        = [(''sm'', Bool True), (''lg'', Bool False), (''xl'', Bool False)]"
    by (simp add: browser_simps)
  with 1 2 3 show ?thesis by simp
qed

section \<open>Without the query facility\<close>

lemma createBreakpoints_server_eq:
  assumes "\<not> checkMqSupported w"
  shows "createBreakpoints w b opts =
     Inr (fst (createBreakpoints_server w b opts),
          createEffect (snd (createBreakpoints_server w b opts))
            (WatchBreakpoints opts False [] (fst (createBreakpoints_server w b opts))))"
  using assms
  by (simp add: createBreakpoints_def mqlInstances_def getInitialMatches_def createBreakpoints_server_def
      split: option.splits prod.splits)

lemma createBreakpoints_server_frame:
  "mqls (snd (createBreakpoints_server w b opts)) = mqls w"
  "effects (snd (createBreakpoints_server w b opts)) = effects w"
  "cleanups (snd (createBreakpoints_server w b opts)) = cleanups w"
  by (simp_all add: createBreakpoints_server_def split: option.splits prod.splits)

lemma without_matchMedia_simps:
  "isServer (without_matchMedia h) = False" "matchMedia (without_matchMedia h) = None"
  "heap (without_matchMedia h) = h" "mqls (without_matchMedia h) = []"
  "effects (without_matchMedia h) = []" "cleanups (without_matchMedia h) = []"
  "trace (without_matchMedia h) = []" "signals (without_matchMedia h) = []"
  "\<not> checkMqSupported (without_matchMedia h)" "idle (without_matchMedia h)"
  by (simp_all add: without_matchMedia_def checkMqSupported_def idle_def)

text \<open>
  The claim as it is written fails on a breakpoint set that has an own key \<^verbatim>\<open>__proto__\<close>.
  Where the query facility is unavailable and no fallback is
  supplied, the mapping returned for the breakpoint set with the own keys \<^verbatim>\<open>__proto__\<close> and
  \<^verbatim>\<open>sm\<close> has the one key \<^verbatim>\<open>sm\<close>: it is not the all-false mapping over the keys of the
  breakpoint set. The same holds of createBreakpoints of server.ts.
\<close>

theorem createBreakpoints_unsupported_counterexample:
  "\<not> checkMqSupported (without_matchMedia [proto_breakpoints]) \<and>
   fallbackMatch no_options = None \<and>
   (case createBreakpoints (without_matchMedia [proto_breakpoints]) 0 no_options of
      Inl e \<Rightarrow> False
    | Inr (matches, w') \<Rightarrow>
        heap w' ! matches = [(''sm'', Bool False)] \<and>
        get (heap w' ! matches) ''__proto__'' = None \<and>
        keys (heap w' ! matches) \<noteq> keys (heap (without_matchMedia [proto_breakpoints]) ! 0)) \<and>
   (case createBreakpoints_server (server [proto_breakpoints]) 0 no_options of
      (matches, w') \<Rightarrow>
        heap w' ! matches = [(''sm'', Bool False)] \<and>
        keys (heap w' ! matches) \<noteq> keys (heap (server [proto_breakpoints]) ! 0))"
  by (simp add: createBreakpoints_server_eq without_matchMedia_simps server_simps
        createBreakpoints_server_def no_options_def getEmptyMatchesFromBreakpoints_proto_breakpoints
        createEffect_def get_def keys_def)
     (auto simp: proto_breakpoints_def)

text \<open>
  C3 (as amended). When the query facility is unavailable, createBreakpoints returns
  options.fallbackMatch itself when it is supplied (the very object, and no object of the
  heap is touched), and otherwise the object made by getEmptyMatchesFromBreakpoints, which
  has the keys of the breakpoint set other than \<^verbatim>\<open>__proto__\<close> (so all its keys, when the
  breakpoint set has no own key \<^verbatim>\<open>__proto__\<close>), all false. createBreakpoints of server.ts
  returns the same. Whatever happens to the scope afterwards, no object of the heap
  changes.
\<close>

theorem createBreakpoints_unsupported:
  assumes "idle w" and "\<not> checkMqSupported w" and "b < length (heap w)"
  shows "\<exists>matches w'.
           createBreakpoints w b opts = Inr (matches, w') \<and>
           (case fallbackMatch opts of
              Some f \<Rightarrow> matches = f \<and> heap w' = heap w
            | None \<Rightarrow>
                (matches, heap w') = getEmptyMatchesFromBreakpoints (heap w) b \<and>
                keys (heap w' ! matches) = keys (heap w ! b) - {''__proto__''} \<and>
                (''__proto__'' \<notin> keys (heap w ! b) \<longrightarrow> keys (heap w' ! matches) = keys (heap w ! b)) \<and>
                snd ` set (heap w' ! matches) \<subseteq> {Bool False}) \<and>
           fst (createBreakpoints_server w b opts) = matches \<and>
           heap (snd (createBreakpoints_server w b opts)) = heap w' \<and>
           (\<forall>acts. heap (run w' acts) = heap w' \<and>
                   heap (run (snd (createBreakpoints_server w b opts)) acts) = heap w')"
proof -
  let ?m = "fst (createBreakpoints_server w b opts)"
  let ?s = "snd (createBreakpoints_server w b opts)"
  let ?w' = "createEffect ?s (WatchBreakpoints opts False [] ?m)"
  have c: "createBreakpoints w b opts = Inr (?m, ?w')"
    by (rule createBreakpoints_server_eq [OF assms(2)])
  have qs: "quiet ?s"
    using assms(1) by (simp add: idle_def quiet_def createBreakpoints_server_frame)
  then have qw: "quiet ?w'"
    by (simp add: quiet_def createEffect_def)
  have h: "heap ?w' = heap ?s" by (simp add: createEffect_def)
  have what: "case fallbackMatch opts of
              Some f \<Rightarrow> ?m = f \<and> heap ?w' = heap w
            | None \<Rightarrow>
                (?m, heap ?w') = getEmptyMatchesFromBreakpoints (heap w) b \<and>
                keys (heap ?w' ! ?m) = keys (heap w ! b) - {''__proto__''} \<and>
                (''__proto__'' \<notin> keys (heap w ! b) \<longrightarrow> keys (heap ?w' ! ?m) = keys (heap w ! b)) \<and>
                snd ` set (heap ?w' ! ?m) \<subseteq> {Bool False}"
  proof (cases "fallbackMatch opts")
    case None
    obtain m h' where g: "getEmptyMatchesFromBreakpoints (heap w) b = (m, h')"
      by (cases "getEmptyMatchesFromBreakpoints (heap w) b")
    with getEmptyMatchesFromBreakpoints_keys [OF assms(3)]
    have "keys (h' ! m) = keys (heap w ! b) - {''__proto__''}" "snd ` set (h' ! m) \<subseteq> {Bool False}"
      by simp_all
    then show ?thesis
      by (simp add: None g createBreakpoints_server_def createEffect_def)
  next
    case (Some f)
    then show ?thesis by (simp add: createBreakpoints_server_def createEffect_def)
  qed
  have "heap (run ?w' acts) = heap ?w' \<and> heap (run ?s acts) = heap ?w'" for acts
    using quiet_run [OF qw, of acts] quiet_run [OF qs, of acts] by (simp add: h)
  with c what show ?thesis by (simp add: h)
qed

theorem createBreakpoints_unsupported_witness:
  "idle (server [example_breakpoints, example_fallback]) \<and>
   \<not> checkMqSupported (server [example_breakpoints, example_fallback]) \<and>
   0 < length (heap (server [example_breakpoints, example_fallback])) \<and>
   (\<exists>matches w'.
      createBreakpoints (server [example_breakpoints, example_fallback]) 0 fallback_options
        = Inr (matches, w') \<and>
      matches = 1 \<and>
      heap (run w' [Mount, Change 0 False, Dispose]) = [example_breakpoints, example_fallback]) \<and>
   idle (without_matchMedia [example_breakpoints]) \<and>
   \<not> checkMqSupported (without_matchMedia [example_breakpoints]) \<and>
   0 < length (heap (without_matchMedia [example_breakpoints])) \<and>
   ''__proto__'' \<notin> keys (heap (without_matchMedia [example_breakpoints]) ! 0) \<and>
   (\<exists>matches w'.
      createBreakpoints (without_matchMedia [example_breakpoints]) 0 no_options = Inr (matches, w') \<and>
      matches = 1 \<and>
      keys (heap w' ! matches) = keys (heap (without_matchMedia [example_breakpoints]) ! 0) \<and>
      heap (run w' [Mount, Change 0 True, Dispose])
        = [example_breakpoints, [(''sm'', Bool False), (''lg'', Bool False), (''xl'', Bool False)]])"
proof -
  let ?S = "server [example_breakpoints, example_fallback]"
  let ?W = "without_matchMedia [example_breakpoints]"
  have 1: "idle ?S" and 2: "\<not> checkMqSupported ?S" and 3: "0 < length (heap ?S)"
    by (simp_all add: server_simps)
  have 4: "idle ?W" and 5: "\<not> checkMqSupported ?W" and 6: "0 < length (heap ?W)"
    by (simp_all add: without_matchMedia_simps)
  have 7: "getEmptyMatchesFromBreakpoints [example_breakpoints] 0
     = (1, [example_breakpoints, [(''sm'', Bool False), (''lg'', Bool False), (''xl'', Bool False)]])"
    by (simp add: getEmptyMatchesFromBreakpoints_def new_object_def set_prop_def entries_examples)
       (simp add: example_breakpoints_def)
  have p: "''__proto__'' \<notin> keys (heap ?W ! 0)"
    by (simp add: without_matchMedia_simps example_breakpoints_def keys_def)
  from createBreakpoints_unsupported [OF 1 2 3, of fallback_options]
  have 8: "\<exists>matches w'.
      createBreakpoints ?S 0 fallback_options = Inr (matches, w') \<and> matches = 1 \<and>
      heap (run w' [Mount, Change 0 False, Dispose]) = [example_breakpoints, example_fallback]"
    by (auto simp: fallback_options_def server_simps)
  from createBreakpoints_unsupported [OF 4 5 6, of no_options] p
  have 9: "\<exists>matches w'.
      createBreakpoints ?W 0 no_options = Inr (matches, w') \<and> matches = 1 \<and>
      keys (heap w' ! matches) = keys (heap ?W ! 0) \<and>
      heap (run w' [Mount, Change 0 True, Dispose])
        = [example_breakpoints, [(''sm'', Bool False), (''lg'', Bool False), (''xl'', Bool False)]]"
    by (auto simp: no_options_def without_matchMedia_simps 7)
  from 1 2 3 4 5 6 8 9 p show ?thesis by blast
qed

section \<open>The single-query observer where there is no facility\<close>

lemma createMediaQuery_isServer:
  assumes "isServer w"
  shows "createMediaQuery w query fallbackState watch =
     Inr (Signal (length (signals w)),
          w\<lparr>signals := signals w @ [case fallbackState of None \<Rightarrow> False | Some v \<Rightarrow> v]\<rparr>)"
  using assms by (simp add: createMediaQuery_def createSignal_def)

lemma createMediaQuery_without_matchMedia:
  assumes "\<not> isServer w" and "matchMedia w = None"
  shows "createMediaQuery w query fallbackState watch = Inl TypeError"
  using assms by (simp add: createMediaQuery_def window_matchMedia_def)

text \<open>
  C4 (as amended). Where isServer is set, createMediaQuery of index.ts returns a signal
  that holds the fallback argument (false when it is omitted) and keeps it whatever happens
  to the scope; it evaluates no query and registers no listener and no cleanup.
  createMediaQuery of server.ts returns an accessor that is false whatever the fallback
  argument.
\<close>

theorem createMediaQuery_isServer_fallback:
  assumes "isServer w" and "idle w"
  shows "\<exists>state w'.
           createMediaQuery w query fallbackState watch = Inr (state, w') \<and>
           trace w' = trace w \<and> mqls w' = mqls w \<and> cleanups w' = cleanups w \<and>
           (\<forall>acts. read (run w' acts) state = (case fallbackState of None \<Rightarrow> False | Some v \<Rightarrow> v) \<and>
                   trace (run w' acts) = trace w) \<and>
           (\<forall>w''. read w'' (createMediaQuery_server query fallbackState watch) = False)"
proof -
  let ?v = "case fallbackState of None \<Rightarrow> False | Some v \<Rightarrow> v"
  let ?w' = "w\<lparr>signals := signals w @ [?v]\<rparr>"
  have q: "quiet ?w'" using assms(2) by (simp add: idle_def quiet_def)
  have "read (run ?w' acts) (Signal (length (signals w))) = ?v \<and> trace (run ?w' acts) = trace w"
    for acts
    using quiet_run [OF q, of acts] by simp
  then show ?thesis
    by (simp add: createMediaQuery_isServer [OF assms(1)] createMediaQuery_server_def)
qed

theorem createMediaQuery_isServer_fallback_witness:
  "isServer (server []) \<and> idle (server []) \<and>
   (\<exists>state w'.
      createMediaQuery (server []) ''(max-width: 767px)'' (Some True) None = Inr (state, w') \<and>
      trace w' = [] \<and> mqls w' = [] \<and>
      read (run w' [Mount, Change 0 False, Dispose]) state = True)"
proof -
  have 1: "isServer (server [])" and 2: "idle (server [])" by (simp_all add: server_simps)
  from createMediaQuery_isServer_fallback [OF 1 2, of "''(max-width: 767px)''" "Some True" None]
  have "\<exists>state w'.
      createMediaQuery (server []) ''(max-width: 767px)'' (Some True) None = Inr (state, w') \<and>
      trace w' = [] \<and> mqls w' = [] \<and>
      read (run w' [Mount, Change 0 False, Dispose]) state = True"
    by (auto simp: server_simps)
  with 1 2 show ?thesis by blast
qed

text \<open>
  The claim as it is written fails on server.ts: called with the fallback true, its
  accessor reads false.
\<close>

theorem createMediaQuery_server_counterexample:
  "read (server []) (createMediaQuery_server ''(max-width: 767px)'' (Some True) None) \<noteq> True"
  by (simp add: createMediaQuery_server_def)

section \<open>Subscribing and unsubscribing\<close>

lemma run_effect_subscribe:
  "run_effect w (WatchBreakpoints opts s instances a) =
     (if \<not> shouldWatch opts \<or> \<not> s then w else foldl (subscribe a) w (entries instances))"
  by (simp add: subscribe_def [abs_def] shouldWatch_def Let_def)

lemma subscribe_fields:
  assumes "m < length (mqls w)" and "mql_listeners (mqls w ! m) = []"
  shows "map mql_listeners (mqls (subscribe a w (k, m))) = (map mql_listeners (mqls w))[m := [Listener a k]]"
    and "cleanups (subscribe a w (k, m)) = cleanups w @ [RemoveListener m (Listener a k)]"
    and "trace (subscribe a w (k, m)) = trace w @ [AddEventListener m (Listener a k)]"
    and "heap (subscribe a w (k, m)) = heap w"
    and "effects (subscribe a w (k, m)) = effects w"
  using assms by (simp_all add: subscribe_def addEventListener_def onCleanup_def map_update Let_def)

lemma foldl_subscribe:
  assumes "map mql_listeners (mqls w) = pre @ replicate (length ks) []" and "length pre = n"
  shows "map mql_listeners (mqls (foldl (subscribe a) w (zip ks [n..<n + length ks])))
           = pre @ map (\<lambda>k. [Listener a k]) ks \<and>
         cleanups (foldl (subscribe a) w (zip ks [n..<n + length ks]))
           = cleanups w @ map (\<lambda>(k, m). RemoveListener m (Listener a k)) (zip ks [n..<n + length ks]) \<and>
         trace (foldl (subscribe a) w (zip ks [n..<n + length ks]))
           = trace w @ map (\<lambda>(k, m). AddEventListener m (Listener a k)) (zip ks [n..<n + length ks]) \<and>
         heap (foldl (subscribe a) w (zip ks [n..<n + length ks])) = heap w \<and>
         effects (foldl (subscribe a) w (zip ks [n..<n + length ks])) = effects w"
  using assms
proof (induction ks arbitrary: w pre n)
  case Nil
  then show ?case by simp
next
  case (Cons k ks)
  have "length (map mql_listeners (mqls w)) = length (pre @ replicate (length (k # ks)) [])"
    by (simp only: Cons.prems(1))
  then have len: "length (mqls w) = n + Suc (length ks)"
    using Cons.prems(2) by simp
  have nth: "mql_listeners (mqls w ! n) = []"
  proof -
    have "map mql_listeners (mqls w) ! n = []"
      using Cons.prems by (simp add: nth_append)
    with len show ?thesis by simp
  qed
  have n: "n < length (mqls w)" using len by simp
  let ?w1 = "subscribe a w (k, n)"
  have 1: "map mql_listeners (mqls ?w1) = (pre @ [[Listener a k]]) @ replicate (length ks) []"
    using Cons.prems by (simp add: subscribe_fields(1) [OF n nth] list_update_append)
  have 2: "length (pre @ [[Listener a k]]) = Suc n" using Cons.prems by simp
  have z: "zip (k # ks) [n..<n + length (k # ks)] = (k, n) # zip ks [Suc n..<Suc n + length ks]"
    by (simp add: upt_add_Suc del: upt_Suc)
  from Cons.IH [OF 1 2] show ?case
    unfolding z by (simp add: subscribe_fields [OF n nth])
qed

lemma run_cleanup_fields:
  "length (mqls (run_cleanup w c)) = length (mqls w)"
  "heap (run_cleanup w c) = heap w"
  "effects (run_cleanup w c) = effects w"
  "cleanups (run_cleanup w c) = cleanups w"
  "signals (run_cleanup w c) = signals w"
  by (cases c; simp add: removeEventListener_def)+

lemma foldl_run_cleanup:
  "length (mqls (foldl run_cleanup w cs)) = length (mqls w) \<and>
   heap (foldl run_cleanup w cs) = heap w \<and>
   effects (foldl run_cleanup w cs) = effects w \<and>
   cleanups (foldl run_cleanup w cs) = cleanups w \<and>
   trace (foldl run_cleanup w cs) = trace w @ map removal cs \<and>
   (\<forall>i < length (mqls w).
      mql_listeners (mqls (foldl run_cleanup w cs) ! i)
        = filter (\<lambda>l. RemoveListener i l \<notin> set cs) (mql_listeners (mqls w ! i)))"
proof (induction cs arbitrary: w)
  case Nil
  then show ?case by simp
next
  case (Cons c cs)
  obtain m l where c: "c = RemoveListener m l" by (cases c)
  have rm: "removeAll l xs = filter (\<lambda>x. RemoveListener m x \<noteq> RemoveListener m l) xs" for xs
    by (induction xs) auto
  have "mql_listeners (mqls (run_cleanup w c) ! i)
      = filter (\<lambda>x. RemoveListener i x \<noteq> c) (mql_listeners (mqls w ! i))"
    if "i < length (mqls w)" for i
  proof (cases "i = m")
    case True
    with that show ?thesis by (simp add: c removeEventListener_def rm)
  next
    case False
    with that show ?thesis by (simp add: c removeEventListener_def)
  qed
  moreover have "trace (run_cleanup w c) = trace w @ [removal c]"
    by (simp add: c removeEventListener_def)
  ultimately show ?case
    using Cons.IH [of "run_cleanup w c"]
    by (auto simp: run_cleanup_fields intro: filter_cong)
qed

section \<open>The phases of an observer\<close>

lemma map_listeners_update_matches:
  "map mql_listeners (ms[m := (ms ! m)\<lparr>mql_matches := v\<rparr>]) = map mql_listeners ms"
  by (cases "m < length ms") (simp_all add: map_update list_update_same_conv list_update_beyond)

lemma dispatch_change_no_listeners:
  assumes "m < length (mqls w) \<Longrightarrow> mql_listeners (mqls w ! m) = []"
  shows "dispatch_change w m v =
     (if m < length (mqls w) then w\<lparr>mqls := (mqls w)[m := (mqls w ! m)\<lparr>mql_matches := v\<rparr>]\<rparr> else w)"
  using assms by (simp add: dispatch_change_def Let_def)

lemma dispatch_change_one_listener:
  assumes "m < length (mqls w)" and "mql_listeners (mqls w ! m) = [Listener a k]"
  shows "dispatch_change w m v =
     w\<lparr>mqls := (mqls w)[m := (mqls w ! m)\<lparr>mql_matches := v\<rparr>],
       heap := set_prop (heap w) a k (Bool v)\<rparr>"
  using assms by (simp add: dispatch_change_def Let_def)

lemma dispatch_change_fields:
  "effects (dispatch_change w m v) = effects w"
  "cleanups (dispatch_change w m v) = cleanups w"
  "trace (dispatch_change w m v) = trace w"
  "map mql_listeners (mqls (dispatch_change w m v)) = map mql_listeners (mqls w)"
proof -
  have *: "effects (foldl (call_listener v) s ls) = effects s \<and>
        cleanups (foldl (call_listener v) s ls) = cleanups s \<and>
        trace (foldl (call_listener v) s ls) = trace s \<and>
        mqls (foldl (call_listener v) s ls) = mqls s" for s ls
  proof (induction ls arbitrary: s)
    case Nil
    then show ?case by simp
  next
    case (Cons l ls)
    show ?case using Cons.IH [of "call_listener v s l"] by (cases l) simp_all
  qed
  show "effects (dispatch_change w m v) = effects w"
    "cleanups (dispatch_change w m v) = cleanups w"
    "trace (dispatch_change w m v) = trace w"
    "map mql_listeners (mqls (dispatch_change w m v)) = map mql_listeners (mqls w)"
    by (simp_all add: dispatch_change_def Let_def * map_listeners_update_matches)
qed

lemma step_Constructed:
  assumes "in_phase a opts ks n Constructed s" and "shouldWatch opts" and "key_order ks"
  shows "in_phase a opts ks n (next_phase Constructed act) (step s act) \<and>
         trace (step s act) = trace s @ emitted a ks n Constructed act \<and>
         heap (step s act) = written a ks n Constructed act (heap s)"
proof (cases act)
  case Mount
  let ?I = "zip ks [n..<n + length ks]"
  have e: "entries ?I = ?I"
    by (rule entries_fixed) (simp add: assms(3))
  have m: "mount s = foldl (subscribe a) (s\<lparr>effects := []\<rparr>) ?I"
    using assms(1,2) by (simp add: mount_def run_effect_subscribe e del: run_effect.simps)
  have l: "map mql_listeners (mqls (s\<lparr>effects := []\<rparr>)) = replicate n [] @ replicate (length ks) []"
    using assms(1) by (simp add: replicate_add)
  have c: "cleanups s = []" using assms(1) by simp
  from foldl_subscribe [OF l, of n a] show ?thesis
    by (simp add: Mount m c)
next
  case (Change m v)
  have "mql_listeners (mqls s ! m) = []" if "m < length (mqls s)"
  proof -
    have ls: "map mql_listeners (mqls s) = replicate (n + length ks) []"
      using assms(1) by simp
    then have "length (map mql_listeners (mqls s)) = length (replicate (n + length ks) ([] :: listener list))"
      by (simp only:)
    then have len: "length (mqls s) = n + length ks" by simp
    have "map mql_listeners (mqls s) ! m = []"
      unfolding ls using that len by simp
    with that show ?thesis by simp
  qed
  from dispatch_change_no_listeners [of m s v, OF this]
  have h: "heap (dispatch_change s m v) = heap s" by simp
  from assms(1) show ?thesis
    by (simp add: Change dispatch_change_fields h)
next
  case Dispose
  with assms(1) show ?thesis by (simp add: dispose_def)
qed

lemma length_mqls_listeners:
  "map mql_listeners (mqls s) = ls \<Longrightarrow> length (mqls s) = length ls"
  by (auto dest: arg_cong [of _ _ length])

lemma nth_listeners:
  "map mql_listeners (mqls s) = ls \<Longrightarrow> m < length ls \<Longrightarrow> mql_listeners (mqls s ! m) = ls ! m"
  by (metis length_map nth_map)

lemma step_Disposed:
  assumes "in_phase a opts ks n Disposed s"
  shows "in_phase a opts ks n (next_phase Disposed act) (step s act) \<and>
         trace (step s act) = trace s @ emitted a ks n Disposed act \<and>
         heap (step s act) = written a ks n Disposed act (heap s)"
proof (cases act)
  case Mount
  with assms show ?thesis by (simp add: mount_def)
next
  case (Change m v)
  have ls: "map mql_listeners (mqls s) = replicate (n + length ks) []"
    using assms by simp
  have "mql_listeners (mqls s ! m) = []" if "m < length (mqls s)"
    using nth_listeners [OF ls, of m] length_mqls_listeners [OF ls] that by simp
  from dispatch_change_no_listeners [of m s v, OF this]
  have h: "heap (dispatch_change s m v) = heap s" by simp
  from assms show ?thesis
    by (simp add: Change dispatch_change_fields h)
next
  case Dispose
  with assms show ?thesis by (simp add: dispose_def)
qed

lemma step_Watching:
  assumes "in_phase a opts ks n Watching s"
  shows "in_phase a opts ks n (next_phase Watching act) (step s act) \<and>
         trace (step s act) = trace s @ emitted a ks n Watching act \<and>
         heap (step s act) = written a ks n Watching act (heap s)"
proof (cases act)
  case Mount
  with assms show ?thesis by (simp add: mount_def)
next
  case (Change m v)
  have ls: "map mql_listeners (mqls s) = replicate n [] @ map (\<lambda>k. [Listener a k]) ks"
    using assms by simp
  have len: "length (mqls s) = n + length ks"
    using length_mqls_listeners [OF ls] by simp
  have h: "heap (dispatch_change s m v) = written a ks n Watching (Change m v) (heap s)"
  proof (cases "n \<le> m \<and> m < n + length ks")
    case True
    from True have "m - n < length ks" by arith
    then have "mql_listeners (mqls s ! m) = [Listener a (ks ! (m - n))]"
      using nth_listeners [OF ls, of m] True by (simp add: nth_append)
    from dispatch_change_one_listener [OF _ this, of v] True len show ?thesis by simp
  next
    case False
    have "mql_listeners (mqls s ! m) = []" if "m < length (mqls s)"
      using nth_listeners [OF ls, of m] False that len by (simp add: nth_append)
    from dispatch_change_no_listeners [of m s v, OF this]
    have "heap (dispatch_change s m v) = heap s" by simp
    with False show ?thesis by auto
  qed
  from assms show ?thesis
    by (simp add: Change dispatch_change_fields h del: written.simps)
next
  case Dispose
  let ?I = "zip ks [n..<n + length ks]"
  let ?cs = "map (\<lambda>(k, m). RemoveListener m (Listener a k)) ?I"
  let ?s0 = "s\<lparr>effects := [], cleanups := []\<rparr>"
  let ?s' = "foldl run_cleanup ?s0 (rev ?cs)"
  have ls: "map mql_listeners (mqls s) = replicate n [] @ map (\<lambda>k. [Listener a k]) ks"
    and cs: "cleanups s = ?cs"
    using assms by simp_all
  have len: "length (mqls s) = n + length ks"
    using length_mqls_listeners [OF ls] by simp
  have d: "dispose s = ?s'" by (simp add: dispose_def cs)
  from foldl_run_cleanup [of ?s0 "rev ?cs"] have
    f: "length (mqls ?s') = length (mqls s)" "heap ?s' = heap s" "effects ?s' = []" "cleanups ?s' = []"
      "trace ?s' = trace s @ map removal (rev ?cs)"
    and l: "\<And>i. i < length (mqls s) \<Longrightarrow>
      mql_listeners (mqls ?s' ! i) = filter (\<lambda>l. RemoveListener i l \<notin> set (rev ?cs)) (mql_listeners (mqls s ! i))"
    by simp_all
  have "map mql_listeners (mqls ?s') = replicate (n + length ks) []"
  proof (rule nth_equalityI)
    show "length (map mql_listeners (mqls ?s')) = length (replicate (n + length ks) ([] :: listener list))"
      by (simp add: f(1) len)
  next
    fix i assume "i < length (map mql_listeners (mqls ?s'))"
    then have i: "i < n + length ks" by (simp add: f(1) len)
    have "filter (\<lambda>l. RemoveListener i l \<notin> set (rev ?cs)) (mql_listeners (mqls s ! i)) = []"
    proof (cases "i < n")
      case True
      then show ?thesis using nth_listeners [OF ls, of i] i by (simp add: nth_append)
    next
      case False
      with i have "(ks ! (i - n), i) \<in> set ?I"
        by (auto simp: set_zip intro!: exI [of _ "i - n"])
      then have "RemoveListener i (Listener a (ks ! (i - n))) \<in> set ?cs" by force
      moreover from i False have "i - n < length ks" by arith
      then have "mql_listeners (mqls s ! i) = [Listener a (ks ! (i - n))]"
        using nth_listeners [OF ls, of i] i False by (simp add: nth_append)
      ultimately show ?thesis by simp
    qed
    with l [of i] i len show "map mql_listeners (mqls ?s') ! i = replicate (n + length ks) [] ! i"
      by (simp add: f(1))
  qed
  moreover have "map removal (rev ?cs) = rev (map (\<lambda>(k, m). RemoveEventListener m (Listener a k)) ?I)"
    by (simp add: rev_map case_prod_unfold comp_def)
  ultimately show ?thesis
    unfolding Dispose by (simp add: d f del: foldl_append)
qed

lemma step_phase:
  assumes "in_phase a opts ks n ph s" and "shouldWatch opts" and "key_order ks"
  shows "in_phase a opts ks n (next_phase ph act) (step s act) \<and>
         trace (step s act) = trace s @ emitted a ks n ph act \<and>
         heap (step s act) = written a ks n ph act (heap s)"
  using assms step_Constructed step_Watching step_Disposed by (cases ph) blast+

section \<open>Runs of a scope\<close>

lemma run_phase:
  assumes "in_phase a opts ks n ph s" and "shouldWatch opts" and "key_order ks"
  shows "in_phase a opts ks n (foldl next_phase ph acts) (run s acts) \<and>
         trace (run s acts) = trace s @ run_trace a ks n ph acts \<and>
         heap (run s acts) = run_heap a ks n ph acts (heap s)"
  using assms(1)
proof (induction acts arbitrary: ph s)
  case Nil
  then show ?case by (simp add: run_def)
next
  case (Cons act acts)
  from step_phase [OF Cons.prems assms(2,3), of act]
  have 1: "in_phase a opts ks n (next_phase ph act) (step s act)"
    and 2: "trace (step s act) = trace s @ emitted a ks n ph act"
    and 3: "heap (step s act) = written a ks n ph act (heap s)"
    by simp_all
  from Cons.IH [OF 1] show ?case
    by (simp add: run_def 2 3)
qed

lemma keys_set_prop:
  assumes "k \<in> keys (h ! a)"
  shows "map keys (set_prop h a k v) = map keys h" and "length (set_prop h a k v) = length h"
proof -
  have "keys (assign (h ! a) k v) = keys (h ! a)"
    using assms by (auto simp: keys_assign)
  then show "map keys (set_prop h a k v) = map keys h"
    by (cases "a < length h") (simp_all add: set_prop_def map_update list_update_same_conv list_update_beyond)
  show "length (set_prop h a k v) = length h" by (simp add: set_prop_def)
qed

lemma keys_written:
  assumes "set ks \<subseteq> keys (h ! a)"
  shows "map keys (written a ks n ph act h) = map keys h"
proof (cases "\<exists>m v. ph = Watching \<and> act = Change m v \<and> n \<le> m \<and> m < n + length ks")
  case True
  then obtain m v where *: "ph = Watching" "act = Change m v" "n \<le> m" "m < n + length ks" by blast
  then have "m - n < length ks" by arith
  with assms have "ks ! (m - n) \<in> keys (h ! a)" by (auto simp: subset_iff)
  with * show ?thesis by (simp add: keys_set_prop)
next
  case False
  then show ?thesis by (cases ph; cases act) auto
qed

lemma keys_run_heap:
  assumes "set ks \<subseteq> keys (h ! a)" and "a < length h"
  shows "map keys (run_heap a ks n ph acts h) = map keys h"
  using assms
proof (induction acts arbitrary: ph h)
  case Nil
  then show ?case by simp
next
  case (Cons act acts)
  have k: "map keys (written a ks n ph act h) = map keys h"
    by (rule keys_written [OF Cons.prems(1)])
  then have "length (written a ks n ph act h) = length h"
    by (auto dest: arg_cong [of _ _ length])
  moreover from k Cons.prems(2) have "keys (written a ks n ph act h ! a) = keys (h ! a)"
    by (metis length_map nth_map calculation)
  ultimately show ?case
    using Cons.IH [of "written a ks n ph act h" "next_phase ph act"] Cons.prems k by simp
qed

lemma idle_listeners: "idle w \<Longrightarrow> map mql_listeners (mqls w) = replicate (length (mqls w)) []"
  by (rule nth_equalityI) (simp_all add: idle_def list_all_length)

lemma shouldWatch_iff: "shouldWatch opts \<longleftrightarrow> watchChange opts \<noteq> Some False"
  by (cases "watchChange opts") (auto simp: shouldWatch_def)

lemma handles_id:
  assumes "''__proto__'' \<notin> keys B"
  shows "handles w B = zip (map fst (entries B)) [length (mqls w)..<length (mqls w) + length (entries B)]"
proof -
  have "keys (zip (map fst (entries B)) [length (mqls w)..<length (mqls w) + length (entries B)])
      = keys B"
    by (simp add: keys_zip) (simp add: keys_def set_entries)
  with assms show ?thesis by (simp add: handles_def created_id)
qed

lemma constructed_in_phase:
  assumes "idle w" and "''__proto__'' \<notin> keys (heap w ! b)"
  shows "in_phase (length (heap w)) opts (map fst (entries (heap w ! b))) (length (mqls w)) Constructed
           (constructed w f b opts)"
proof -
  have "map mql_listeners (map (\<lambda>(token, width). new_mql f (mediaquery opts width)) (entries (heap w ! b)))
      = replicate (length (entries (heap w ! b))) []"
    by (rule nth_equalityI) (simp_all add: new_mql_def case_prod_unfold)
  with assms(1) idle_listeners [OF assms(1)] show ?thesis
    by (simp add: constructed_def handles_id [OF assms(2)] idle_def replicate_add)
qed

lemma constructed_fields:
  "heap (constructed w f b opts) = heap w @ [initial_matches f opts (heap w ! b)]"
  "trace (constructed w f b opts)
     = trace w @ map (\<lambda>(token, width). MatchMedia (mediaquery opts width)) (entries (heap w ! b))"
  by (simp_all add: constructed_def)

section \<open>The key set of the mapping\<close>

lemma createBreakpoints_unsupported_quiet:
  assumes "idle w" and "\<not> checkMqSupported w"
  shows "\<exists>w'. createBreakpoints w b opts = Inr (fst (createBreakpoints_server w b opts), w') \<and>
           quiet w' \<and> heap w' = heap (snd (createBreakpoints_server w b opts))"
  using assms(1)
  by (simp add: createBreakpoints_server_eq [OF assms(2)] createEffect_def quiet_def idle_def
      createBreakpoints_server_frame)

lemma createBreakpoints_server_keys:
  assumes "b < length (heap w)"
  shows "keys (heap (snd (createBreakpoints_server w b opts)) ! fst (createBreakpoints_server w b opts))
       = (case fallbackMatch opts of None \<Rightarrow> keys (heap w ! b) - {''__proto__''}
          | Some fb \<Rightarrow> keys (heap w ! fb))"
proof (cases "fallbackMatch opts")
  case None
  obtain m h' where g: "getEmptyMatchesFromBreakpoints (heap w) b = (m, h')"
    by (cases "getEmptyMatchesFromBreakpoints (heap w) b")
  with getEmptyMatchesFromBreakpoints_keys(1) [OF assms] show ?thesis
    by (simp add: None createBreakpoints_server_def)
next
  case (Some fb)
  then show ?thesis by (simp add: createBreakpoints_server_def)
qed

lemma keys_run_constructed:
  assumes "idle w" and "shouldWatch opts" and "distinct (map fst (heap w ! b))"
    and "''__proto__'' \<notin> keys (heap w ! b)"
  shows "keys (heap (run (constructed w f b opts) acts) ! length (heap w)) = keys (heap w ! b)"
proof -
  let ?a = "length (heap w)" and ?ks = "map fst (entries (heap w ! b))" and ?n = "length (mqls w)"
  let ?w' = "constructed w f b opts"
  have p: "in_phase ?a opts ?ks ?n Constructed ?w'"
    by (rule constructed_in_phase [OF assms(1,4)])
  have h: "heap (run ?w' acts) = run_heap ?a ?ks ?n Constructed acts (heap ?w')"
    using run_phase [OF p assms(2) key_order_entries, of acts] by simp
  have a: "?a < length (heap ?w')" and k0: "keys (heap ?w' ! ?a) = keys (heap w ! b)"
    using assms(4) by (simp_all add: constructed_fields keys_initial_matches)
  have "set ?ks = keys (heap w ! b)"
    by (simp add: keys_def set_entries)
  then have "set ?ks \<subseteq> keys (heap ?w' ! ?a)"
    by (simp only: k0)
  from keys_run_heap [OF this a, of ?n Constructed acts]
  have m: "map keys (heap (run ?w' acts)) = map keys (heap ?w')" by (simp add: h)
  then have "length (heap (run ?w' acts)) = length (heap ?w')"
    by (auto dest: arg_cong [of _ _ length])
  with a have "keys (heap (run ?w' acts) ! ?a) = map keys (heap (run ?w' acts)) ! ?a" by simp
  also have "\<dots> = keys (heap ?w' ! ?a)" using a by (simp add: m)
  finally show ?thesis by (simp add: k0)
qed

text \<open>
  The claim as it is written fails in two ways. Where the facility is unavailable and the fallback has
  other keys than the breakpoint set, the returned mapping is the fallback: with the
  breakpoints sm, lg and xl and the fallback \<^verbatim>\<open>{sm: true}\<close> it has the one key sm. And for the
  breakpoint set with the own keys \<^verbatim>\<open>__proto__\<close> and \<^verbatim>\<open>sm\<close> the mapping that is built key by
  key has the one key \<^verbatim>\<open>sm\<close>, with the facility (in a browser) and without it (on a
  server, with no fallback).
\<close>

theorem createBreakpoints_keys_counterexample:
  "(case createBreakpoints (server [example_breakpoints, [(''sm'', Bool True)]]) 0 fallback_options of
      Inl e \<Rightarrow> {}
    | Inr (matches, w') \<Rightarrow> keys (heap w' ! matches)) = {''sm''} \<and>
   keys example_breakpoints = {''sm'', ''lg'', ''xl''} \<and>
   (case createBreakpoints (server [example_breakpoints, [(''sm'', Bool True)]]) 0 fallback_options of
      Inl e \<Rightarrow> {}
    | Inr (matches, w') \<Rightarrow> keys (heap w' ! matches)) \<noteq> keys example_breakpoints \<and>
   (case createBreakpoints (browser [proto_breakpoints]) 0 no_options of
      Inl e \<Rightarrow> {}
    | Inr (matches, w') \<Rightarrow> keys (heap w' ! matches)) = {''sm''} \<and>
   (case createBreakpoints (server [proto_breakpoints]) 0 no_options of
      Inl e \<Rightarrow> {}
    | Inr (matches, w') \<Rightarrow> keys (heap w' ! matches)) = {''sm''} \<and>
   keys proto_breakpoints = {''__proto__'', ''sm''} \<and>
   (case createBreakpoints (browser [proto_breakpoints]) 0 no_options of
      Inl e \<Rightarrow> {}
    | Inr (matches, w') \<Rightarrow> keys (heap w' ! matches)) \<noteq> keys proto_breakpoints"
proof -
  have "createBreakpoints (server [example_breakpoints, [(''sm'', Bool True)]]) 0 fallback_options
      = Inr (1, (server [example_breakpoints, [(''sm'', Bool True)]])
                  \<lparr>effects := [WatchBreakpoints fallback_options False [] 1]\<rparr>)"
    using createBreakpoints_unsupported_fallback
      [of "server [example_breakpoints, [(''sm'', Bool True)]]" fallback_options 1 0]
    by (simp add: server_simps fallback_options_def)
  moreover have "(case createBreakpoints (server [proto_breakpoints]) 0 no_options of
      Inl e \<Rightarrow> {}
    | Inr (matches, w') \<Rightarrow> keys (heap w' ! matches)) = {''sm''}"
    by (simp add: createBreakpoints_server_eq server_simps createBreakpoints_server_def no_options_def
        getEmptyMatchesFromBreakpoints_proto_breakpoints createEffect_def keys_def)
  ultimately show ?thesis
    by (simp add: constructed_proto_breakpoints)
       (auto simp: server_simps keys_def example_breakpoints_def proto_breakpoints_def)
qed

text \<open>
  C6 (as amended). The key set of the returned mapping equals the key set of the breakpoint
  set at construction and after every sequence of mountings, change notifications and
  disposals, provided that the breakpoint set has no own key \<^verbatim>\<open>__proto__\<close> where the query
  facility is available or options.fallbackMatch is not supplied, and that the supplied
  fallbackMatch has the keys of the breakpoint set where the facility is unavailable.
\<close>

theorem createBreakpoints_keys:
  assumes "idle w" and "b < length (heap w)" and "distinct (map fst (heap w ! b))"
    and "if checkMqSupported w then ''__proto__'' \<notin> keys (heap w ! b)
         else (case fallbackMatch opts of
                 None \<Rightarrow> ''__proto__'' \<notin> keys (heap w ! b)
               | Some fb \<Rightarrow> keys (heap w ! fb) = keys (heap w ! b))"
  shows "\<exists>matches w'.
           createBreakpoints w b opts = Inr (matches, w') \<and>
           (\<forall>acts. keys (heap (run w' acts) ! matches) = keys (heap w ! b))"
proof (cases "checkMqSupported w")
  case True
  then obtain f where f: "matchMedia w = Some f" by (auto simp: checkMqSupported_iff)
  from True assms(4) have np: "''__proto__'' \<notin> keys (heap w ! b)" by simp
  let ?w' = "constructed w f b opts"
  have c: "createBreakpoints w b opts = Inr (length (heap w), ?w')"
    by (rule createBreakpoints_supported [OF True f assms(3)])
  have "keys (heap (run ?w' acts) ! length (heap w)) = keys (heap w ! b)" for acts
  proof (cases "shouldWatch opts")
    case True
    then show ?thesis by (rule keys_run_constructed [OF assms(1) _ assms(3) np])
  next
    case False
    with createBreakpoints_quiet [OF assms(1), of opts b] c have "quiet ?w'" by simp
    from quiet_run [OF this, of acts] np show ?thesis
      by (simp add: constructed_fields keys_initial_matches)
  qed
  with c show ?thesis by blast
next
  case False
  from createBreakpoints_unsupported_quiet [OF assms(1) False, of b opts] obtain w' where
    c: "createBreakpoints w b opts = Inr (fst (createBreakpoints_server w b opts), w')" and
    q: "quiet w'" and h: "heap w' = heap (snd (createBreakpoints_server w b opts))"
    by blast
  have k: "keys (heap w' ! fst (createBreakpoints_server w b opts)) = keys (heap w ! b)"
    using assms(4) False by (simp add: h createBreakpoints_server_keys [OF assms(2)] split: option.splits)
  have "keys (heap (run w' acts) ! fst (createBreakpoints_server w b opts)) = keys (heap w ! b)" for acts
    using quiet_run [OF q, of acts] k by simp
  with c show ?thesis by blast
qed

theorem createBreakpoints_keys_witness:
  "idle (browser [example_breakpoints]) \<and> 0 < length (heap (browser [example_breakpoints])) \<and>
   distinct (map fst (heap (browser [example_breakpoints]) ! 0)) \<and>
   checkMqSupported (browser [example_breakpoints]) \<and>
   ''__proto__'' \<notin> keys (heap (browser [example_breakpoints]) ! 0) \<and>
   (\<exists>matches w'.
      createBreakpoints (browser [example_breakpoints]) 0 no_options = Inr (matches, w') \<and>
      keys (heap (run w' [Mount, Change 1 True, Change 0 False, Dispose]) ! matches)
        = {''sm'', ''lg'', ''xl''})"
proof -
  let ?W = "browser [example_breakpoints]"
  have 1: "idle ?W" and 2: "0 < length (heap ?W)" and 3: "distinct (map fst (heap ?W ! 0))"
    and 4: "checkMqSupported ?W" and p: "''__proto__'' \<notin> keys (heap ?W ! 0)"
    by (simp_all add: server_simps browser_simps example_breakpoints_def keys_def)
  have 5: "if checkMqSupported ?W then ''__proto__'' \<notin> keys (heap ?W ! 0)
         else (case fallbackMatch no_options of
                 None \<Rightarrow> ''__proto__'' \<notin> keys (heap ?W ! 0)
               | Some fb \<Rightarrow> keys (heap ?W ! fb) = keys (heap ?W ! 0))"
    using 4 p by simp
  from createBreakpoints_keys [OF 1 2 3 5]
  have "\<exists>matches w'.
      createBreakpoints ?W 0 no_options = Inr (matches, w') \<and>
      keys (heap (run w' [Mount, Change 1 True, Change 0 False, Dispose]) ! matches)
        = {''sm'', ''lg'', ''xl''}"
    by (auto simp: browser_simps keys_def example_breakpoints_def)
  with 1 2 3 4 p show ?thesis by blast
qed

section \<open>Change notifications\<close>

lemma get_handles_Some:
  assumes "get (handles w B) token = Some m"
  shows "\<exists>i < length (entries B). fst (entries B ! i) = token \<and> m = length (mqls w) + i"
proof -
  from assms have "(token, m) \<in> set (handles w B)"
    by (simp add: get_def map_of_SomeD)
  then show ?thesis
    by (auto simp: handles_def created_def set_zip)
qed

lemma keys_handles: "keys (handles w B) = keys B - {''__proto__''}"
proof -
  have "keys (zip (map fst (entries B)) [length (mqls w)..<length (mqls w) + length (entries B)])
      = keys B"
    by (simp add: keys_zip) (simp add: keys_def set_entries)
  then show ?thesis by (simp add: handles_def keys_created)
qed

lemma length_run_heap:
  "length (run_heap a ks n ph acts h) = length h"
proof (induction acts arbitrary: ph h)
  case Nil
  then show ?case by simp
next
  case (Cons act acts)
  have "length (written a ks n ph act h) = length h"
    by (cases ph; cases act) (simp_all add: set_prop_def)
  with Cons.IH [of "next_phase ph act" "written a ks n ph act h"] show ?case by simp
qed

lemma get_set_prop:
  assumes "a < length h" and "token \<in> keys (h ! a)"
  shows "get (set_prop h a token v ! a) k = (if k = token then Some v else get (h ! a) k)"
    and "keys (set_prop h a token v ! a) = keys (h ! a)"
  using assms by (auto simp: set_prop_def get_assign keys_assign)

lemma constructed_proto_world:
  "constructed (browser [proto_breakpoints]) (\<lambda>query. query = ''(min-width: 640px)'') 0 no_options
     = \<lparr>isServer = False, matchMedia = Some (\<lambda>query. query = ''(min-width: 640px)''),
        heap = [proto_breakpoints, [(''sm'', Bool True)]],
        mqls = [\<lparr>mql_media = ''(min-width: 640px)'', mql_matches = True, mql_listeners = []\<rparr>,
                \<lparr>mql_media = ''(min-width: 640px)'', mql_matches = True, mql_listeners = []\<rparr>],
        signals = [], owner = True,
        effects = [WatchBreakpoints no_options True [(''sm'', 1)] 1],
        cleanups = [],
        trace = [MatchMedia ''(min-width: 640px)'', MatchMedia ''(min-width: 640px)'']\<rparr>"
  by (simp add: constructed_def browser_def entries_examples [unfolded proto_breakpoints_def]
      initial_matches_def handles_def created_def new_mql_def mediaquery_cases no_options_def
      proto_breakpoints_def)

lemma entries_sm: "entries [(''sm'', x)] = [(''sm'', x)]"
  by (simp add: entries_def is_array_index_examples)

lemma mount_proto_world:
  "run (constructed (browser [proto_breakpoints]) (\<lambda>query. query = ''(min-width: 640px)'') 0 no_options)
       [Mount]
     = \<lparr>isServer = False, matchMedia = Some (\<lambda>query. query = ''(min-width: 640px)''),
        heap = [proto_breakpoints, [(''sm'', Bool True)]],
        mqls = [\<lparr>mql_media = ''(min-width: 640px)'', mql_matches = True, mql_listeners = []\<rparr>,
                \<lparr>mql_media = ''(min-width: 640px)'', mql_matches = True,
                  mql_listeners = [Listener 1 ''sm'']\<rparr>],
        signals = [], owner = True,
        effects = [],
        cleanups = [RemoveListener 1 (Listener 1 ''sm'')],
        trace = [MatchMedia ''(min-width: 640px)'', MatchMedia ''(min-width: 640px)'',
                 AddEventListener 1 (Listener 1 ''sm'')]\<rparr>"
  unfolding constructed_proto_world
  by (simp add: run_def mount_def no_options_def entries_sm addEventListener_def onCleanup_def Let_def)

lemma dispose_proto_world:
  "run (constructed (browser [proto_breakpoints]) (\<lambda>query. query = ''(min-width: 640px)'') 0 no_options)
       [Mount, Dispose]
     = \<lparr>isServer = False, matchMedia = Some (\<lambda>query. query = ''(min-width: 640px)''),
        heap = [proto_breakpoints, [(''sm'', Bool True)]],
        mqls = [\<lparr>mql_media = ''(min-width: 640px)'', mql_matches = True, mql_listeners = []\<rparr>,
                \<lparr>mql_media = ''(min-width: 640px)'', mql_matches = True, mql_listeners = []\<rparr>],
        signals = [], owner = True,
        effects = [],
        cleanups = [],
        trace = [MatchMedia ''(min-width: 640px)'', MatchMedia ''(min-width: 640px)'',
                 AddEventListener 1 (Listener 1 ''sm''), RemoveEventListener 1 (Listener 1 ''sm'')]\<rparr>"
proof -
  have "run (constructed (browser [proto_breakpoints]) (\<lambda>query. query = ''(min-width: 640px)'') 0 no_options)
       [Mount, Dispose]
      = dispose (run (constructed (browser [proto_breakpoints]) (\<lambda>query. query = ''(min-width: 640px)'') 0 no_options)
       [Mount])"
    by (simp add: run_def)
  then show ?thesis
    unfolding mount_proto_world by (simp add: dispose_def removeEventListener_def)
qed

text \<open>
  The claim as it is written fails on a breakpoint set that has an own key \<^verbatim>\<open>__proto__\<close>,
  and outside the time in which the observer watches. For the breakpoint set with the own keys \<^verbatim>\<open>__proto__\<close> and \<^verbatim>\<open>sm\<close>,
  handle 0 is the one built for the key \<^verbatim>\<open>__proto__\<close> and handle 1 the one built for \<^verbatim>\<open>sm\<close>.
  The memo has no entry for \<^verbatim>\<open>__proto__\<close>, so the effect attaches no listener to handle 0: with
  the scope mounted, a change notification on handle 0 (the match boolean false) updates
  nothing, and the mapping has no entry \<^verbatim>\<open>__proto__\<close>. And a change notification on handle 1
  updates the entry \<^verbatim>\<open>sm\<close> only while the observer is watching: once the scope is disposed
  the listener is gone and the entry keeps its value.
\<close>

theorem change_updates_one_entry_counterexample:
  "(''__proto__'', Str ''640px'') \<in> set (heap (browser [proto_breakpoints]) ! 0) \<and>
   (case createBreakpoints (browser [proto_breakpoints]) 0 no_options of
      Inl e \<Rightarrow> False
    | Inr (matches, w') \<Rightarrow>
        map mql_media (mqls w') = [''(min-width: 640px)'', ''(min-width: 640px)''] \<and>
        map mql_listeners (mqls (run w' [Mount])) = [[], [Listener matches ''sm'']] \<and>
        heap (run w' [Mount]) ! matches = [(''sm'', Bool True)] \<and>
        heap (dispatch_change (run w' [Mount]) 0 False) ! matches = [(''sm'', Bool True)] \<and>
        get (heap (dispatch_change (run w' [Mount]) 0 False) ! matches) ''__proto__'' \<noteq> Some (Bool False) \<and>
        heap (dispatch_change (run w' [Mount, Dispose]) 1 False) ! matches = [(''sm'', Bool True)] \<and>
        get (heap (dispatch_change (run w' [Mount, Dispose]) 1 False) ! matches) ''sm'' \<noteq> Some (Bool False))"
proof -
  have "map mql_media (mqls (constructed (browser [proto_breakpoints]) (\<lambda>query. query = ''(min-width: 640px)'') 0 no_options))
      = [''(min-width: 640px)'', ''(min-width: 640px)'']"
    by (simp add: constructed_proto_world)
  then show ?thesis
    by (simp add: constructed_proto_breakpoints(1) mount_proto_world dispose_proto_world
          dispatch_change_def Let_def get_def browser_simps)
       (simp add: proto_breakpoints_def)
qed

text \<open>
  C5 (as amended). For a breakpoint set that has no own key \<^verbatim>\<open>__proto__\<close>, with the facility
  available, let m be the handle that the memo holds for the key token. In every state the
  scope can reach, a change notification on m leaves the value of every other key of the
  mapping, and the key set, as they were; and while the observer is watching (watching is
  on, the scope is mounted and not disposed), it sets the value at token to the match
  boolean of the notification.
\<close>

theorem change_updates_one_entry:
  assumes "idle w" and "\<not> isServer w" and "matchMedia w = Some f"
    and "distinct (map fst (heap w ! b))" and "''__proto__'' \<notin> keys (heap w ! b)"
  shows "\<exists>matches w' memo w1.
           createBreakpoints w b opts = Inr (matches, w') \<and>
           mqlInstances w b opts True = Inr (memo, w1) \<and>
           keys memo = keys (heap w ! b) \<and>
           (\<forall>token m acts v.
              get memo token = Some m \<longrightarrow>
                (\<forall>k. k \<noteq> token \<longrightarrow>
                   get (heap (dispatch_change (run w' acts) m v) ! matches) k
                     = get (heap (run w' acts) ! matches) k) \<and>
                keys (heap (dispatch_change (run w' acts) m v) ! matches)
                  = keys (heap (run w' acts) ! matches) \<and>
                (watchChange opts \<noteq> Some False \<and> phase_after acts = Watching \<longrightarrow>
                   get (heap (dispatch_change (run w' acts) m v) ! matches) token = Some (Bool v)))"
proof -
  let ?B = "heap w ! b"
  let ?a = "length (heap w)" and ?ks = "map fst (entries ?B)" and ?n = "length (mqls w)"
  let ?w' = "constructed w f b opts"
  have sup: "checkMqSupported w" using assms(2,3) by (simp add: checkMqSupported_iff)
  have c: "createBreakpoints w b opts = Inr (?a, ?w')"
    by (rule createBreakpoints_supported [OF sup assms(3,4)])
  have mi: "mqlInstances w b opts True = Inr (handles w ?B, w\<lparr>mqls := mqls w @ map (\<lambda>(k, width). new_mql f (mediaquery opts width)) (entries ?B),
             trace := trace w @ map (\<lambda>(k, width). MatchMedia (mediaquery opts width)) (entries ?B)\<rparr>)"
    using mqlInstances_supported [OF assms(3,4), where opts = opts] by simp
  have main: "(\<forall>k. k \<noteq> token \<longrightarrow>
                   get (heap (dispatch_change (run ?w' acts) m v) ! ?a) k
                     = get (heap (run ?w' acts) ! ?a) k) \<and>
                keys (heap (dispatch_change (run ?w' acts) m v) ! ?a)
                  = keys (heap (run ?w' acts) ! ?a) \<and>
                (watchChange opts \<noteq> Some False \<and> phase_after acts = Watching \<longrightarrow>
                   get (heap (dispatch_change (run ?w' acts) m v) ! ?a) token = Some (Bool v))"
    if g: "get (handles w ?B) token = Some m" for token m acts v
  proof (cases "shouldWatch opts")
    case sw: True
    have p: "in_phase ?a opts ?ks ?n Constructed ?w'"
      by (rule constructed_in_phase [OF assms(1,5)])
    from get_handles_Some [OF g] obtain i where
      i: "i < length (entries ?B)" "fst (entries ?B ! i) = token" "m = ?n + i"
      by blast
    let ?s = "run ?w' acts"
    from run_phase [OF p sw key_order_entries, of acts] have
      ps: "in_phase ?a opts ?ks ?n (phase_after acts) ?s" and
      hs: "heap ?s = run_heap ?a ?ks ?n Constructed acts (heap ?w')"
      by (simp_all add: phase_after_def)
    have a: "?a < length (heap ?s)"
      by (simp add: hs length_run_heap constructed_fields)
    have ks: "keys (heap ?s ! ?a) = keys ?B"
      using keys_run_constructed [OF assms(1) sw assms(4,5), of f acts] by simp
    from step_phase [OF ps sw key_order_entries, of "Change m v"]
    have h': "heap (dispatch_change ?s m v) = written ?a ?ks ?n (phase_after acts) (Change m v) (heap ?s)"
      by simp
    show ?thesis
    proof (cases "phase_after acts = Watching")
      case True
      have "token \<in> keys ?B"
        using i(1,2) by (metis keys_entries keys_def nth_mem image_eqI)
      moreover have "heap (dispatch_change ?s m v) = set_prop (heap ?s) ?a token (Bool v)"
        using h' True i by simp
      ultimately show ?thesis
        using a ks True by (simp add: get_set_prop)
    next
      case False
      then have "heap (dispatch_change ?s m v) = heap ?s"
        unfolding h' by (cases "phase_after acts") simp_all
      with False show ?thesis by simp
    qed
  next
    case False
    with createBreakpoints_quiet [OF assms(1), of opts b] c have "quiet ?w'" by simp
    from quiet_run [OF this, of acts] have "quiet (run ?w' acts)" by simp
    from quiet_step [OF this, of "Change m v"]
    have "heap (dispatch_change (run ?w' acts) m v) = heap (run ?w' acts)" by simp
    with False show ?thesis by (simp add: shouldWatch_iff)
  qed
  show ?thesis
    unfolding c mi using main assms(5) by (simp add: keys_handles)
qed

theorem change_updates_one_entry_witness:
  "idle (browser [example_breakpoints]) \<and> \<not> isServer (browser [example_breakpoints]) \<and>
   matchMedia (browser [example_breakpoints]) = Some (\<lambda>query. query = ''(min-width: 640px)'') \<and>
   distinct (map fst (heap (browser [example_breakpoints]) ! 0)) \<and>
   ''__proto__'' \<notin> keys (heap (browser [example_breakpoints]) ! 0) \<and>
   (\<exists>matches w' memo w1.
      createBreakpoints (browser [example_breakpoints]) 0 no_options = Inr (matches, w') \<and>
      mqlInstances (browser [example_breakpoints]) 0 no_options True = Inr (memo, w1) \<and>
      get memo ''lg'' = Some 1 \<and>
      watchChange no_options \<noteq> Some False \<and> phase_after [Mount] = Watching \<and>
      get (heap (dispatch_change (run w' [Mount]) 1 True) ! matches) ''lg'' = Some (Bool True) \<and>
      get (heap (dispatch_change (run w' [Mount]) 1 True) ! matches) ''sm''
        = get (heap (run w' [Mount]) ! matches) ''sm'' \<and>
      get (heap (dispatch_change (run w' [Mount]) 1 True) ! matches) ''xl''
        = get (heap (run w' [Mount]) ! matches) ''xl'')"
proof -
  let ?W = "browser [example_breakpoints]"
  have 1: "idle ?W" and 2: "\<not> isServer ?W"
    and 3: "matchMedia ?W = Some (\<lambda>query. query = ''(min-width: 640px)'')"
    and 4: "distinct (map fst (heap ?W ! 0))" and 5: "watchChange no_options \<noteq> Some False"
    and p: "''__proto__'' \<notin> keys (heap ?W ! 0)"
    by (simp_all add: server_simps browser_simps example_breakpoints_def no_options_def keys_def)
  from change_updates_one_entry [OF 1 2 3 4 p, where opts = no_options]
  obtain matches w' memo w1 where
    all: "createBreakpoints ?W 0 no_options = Inr (matches, w') \<and>
           mqlInstances ?W 0 no_options True = Inr (memo, w1) \<and>
           keys memo = keys (heap ?W ! 0) \<and>
           (\<forall>token m acts v.
              get memo token = Some m \<longrightarrow>
                (\<forall>k. k \<noteq> token \<longrightarrow>
                   get (heap (dispatch_change (run w' acts) m v) ! matches) k
                     = get (heap (run w' acts) ! matches) k) \<and>
                keys (heap (dispatch_change (run w' acts) m v) ! matches)
                  = keys (heap (run w' acts) ! matches) \<and>
                (watchChange no_options \<noteq> Some False \<and> phase_after acts = Watching \<longrightarrow>
                   get (heap (dispatch_change (run w' acts) m v) ! matches) token = Some (Bool v)))"
    by (elim exE)
  from all have c: "createBreakpoints ?W 0 no_options = Inr (matches, w')"
    and m: "mqlInstances ?W 0 no_options True = Inr (memo, w1)"
    by (rule conjunct1, rule conjunct2 [THEN conjunct1])
  from all have u: "get memo token = Some m \<Longrightarrow>
          (\<forall>k. k \<noteq> token \<longrightarrow>
             get (heap (dispatch_change (run w' acts) m v) ! matches) k
               = get (heap (run w' acts) ! matches) k) \<and>
          (watchChange no_options \<noteq> Some False \<and> phase_after acts = Watching \<longrightarrow>
             get (heap (dispatch_change (run w' acts) m v) ! matches) token = Some (Bool v))"
    for token m acts v
    by (elim conjE allE [of _ token] allE [of _ m] allE [of _ acts] allE [of _ v]) simp
  have g: "get memo ''lg'' = Some 1"
    using m mqlInstances_supported [OF 3 4, where opts = no_options]
    by (simp add: browser_simps entries_examples handles_def created_def)
       (auto simp: example_breakpoints_def get_def)
  have ph: "phase_after [Mount] = Watching" by (simp add: phase_after_def)
  from u [OF g, of "[Mount]" True] ph 5 have
    "get (heap (dispatch_change (run w' [Mount]) 1 True) ! matches) ''lg'' = Some (Bool True)"
    "get (heap (dispatch_change (run w' [Mount]) 1 True) ! matches) ''sm''
        = get (heap (run w' [Mount]) ! matches) ''sm''"
    "get (heap (dispatch_change (run w' [Mount]) 1 True) ! matches) ''xl''
        = get (heap (run w' [Mount]) ! matches) ''xl''"
    by simp_all
  with 1 2 3 4 5 p c m g ph show ?thesis
    by (intro conjI exI [of _ matches] exI [of _ w'] exI [of _ memo] exI [of _ w1])
qed

section \<open>What the platform records\<close>

lemma registrations_append: "registrations (xs @ ys) = registrations xs @ registrations ys"
  by (induction xs rule: registrations.induct) simp_all

lemma removals_append: "removals (xs @ ys) = removals xs @ removals ys"
  by (induction xs rule: removals.induct) simp_all

lemma registrations_map:
  "registrations (map (\<lambda>(k, m). AddEventListener m (Listener a k)) xs) = map (\<lambda>(k, m). (m, Listener a k)) xs"
  "registrations (map (\<lambda>(k, m). RemoveEventListener m (Listener a k)) xs) = []"
  "registrations (map MatchMedia qs) = []"
  by (induction xs, auto) (induction qs, auto)

lemma removals_map:
  "removals (map (\<lambda>(k, m). RemoveEventListener m (Listener a k)) xs) = map (\<lambda>(k, m). (m, Listener a k)) xs"
  "removals (map (\<lambda>(k, m). AddEventListener m (Listener a k)) xs) = []"
  "removals (map MatchMedia qs) = []"
  by (induction xs, auto) (induction qs, auto)

lemma removals_rev: "removals (rev es) = rev (removals es)"
proof (induction es)
  case Nil
  then show ?case by simp
next
  case (Cons e es)
  then show ?case by (cases e) (simp_all add: removals_append)
qed

lemma run_trace_Disposed: "run_trace a ks n Disposed acts = []"
  by (induction acts) simp_all

lemma run_trace_changes:
  "list_all is_Change changes \<Longrightarrow>
   run_trace a ks n Watching changes = [] \<and> foldl next_phase Watching changes = Watching"
proof (induction changes)
  case Nil
  then show ?case by simp
next
  case (Cons act changes)
  then show ?case by (cases act) simp_all
qed

lemma removals_run_trace:
  "removals (run_trace a ks n ph acts) = [] \<or>
   removals (run_trace a ks n ph acts)
     = rev (map (\<lambda>(k, m). (m, Listener a k)) (zip ks [n..<n + length ks]))"
proof (induction acts arbitrary: ph)
  case Nil
  then show ?case by simp
next
  case (Cons act acts)
  show ?case
  proof (cases "ph = Watching \<and> act = Dispose")
    case True
    then show ?thesis
      by (simp add: removals_append run_trace_Disposed removals_rev removals_map)
  next
    case False
    then have "removals (emitted a ks n ph act) = []"
      by (cases ph; cases act) (simp_all add: removals_map)
    with Cons.IH [of "next_phase ph act"] show ?thesis
      by (simp add: removals_append)
  qed
qed

section \<open>Disposal\<close>

lemma distinct_subscriptions:
  assumes "distinct ks"
  shows "distinct (map (\<lambda>(k, m). (m, Listener a k)) (zip ks [n..<n + length ks]))"
proof -
  have "distinct (zip ks [n..<n + length ks])"
    using assms by (rule distinct_zipI1)
  moreover have "inj_on (\<lambda>(k, m). (m, Listener a k)) (set (zip ks [n..<n + length ks]))"
    by (auto simp: inj_on_def)
  ultimately show ?thesis by (simp add: distinct_map)
qed

text \<open>
  The claim as it is written fails on a breakpoint set that has an own key \<^verbatim>\<open>__proto__\<close>.
  For the breakpoint set with the own keys \<^verbatim>\<open>__proto__\<close> and \<^verbatim>\<open>sm\<close>, two
  breakpoints are observed (two handles are built) and one listener is registered, the one
  for \<^verbatim>\<open>sm\<close>: disposal removes one listener, and the number of removals is not the number of
  breakpoints.
\<close>

theorem dispose_removes_all_listeners_counterexample:
  "watchChange no_options \<noteq> Some False \<and>
   length (heap (browser [proto_breakpoints]) ! 0) = 2 \<and>
   (case createBreakpoints (browser [proto_breakpoints]) 0 no_options of
      Inl e \<Rightarrow> False
    | Inr (matches, w') \<Rightarrow>
        length (mqls w') = 2 \<and>
        registrations (trace (run w' [Mount])) = [(1, Listener matches ''sm'')] \<and>
        removals (trace (run w' [Mount, Dispose])) = [(1, Listener matches ''sm'')] \<and>
        length (removals (trace (run w' [Mount, Dispose]))) \<noteq> length (heap (browser [proto_breakpoints]) ! 0))"
proof -
  have "length (mqls (constructed (browser [proto_breakpoints]) (\<lambda>query. query = ''(min-width: 640px)'') 0 no_options)) = 2"
    by (simp add: constructed_proto_world)
  then show ?thesis
    by (simp add: constructed_proto_breakpoints(1) mount_proto_world dispose_proto_world
          browser_simps)
       (simp add: proto_breakpoints_def no_options_def)
qed

text \<open>
  C8 (as amended). For a breakpoint set that has no own key \<^verbatim>\<open>__proto__\<close>, with the facility
  available and watching on, let the subscriptions be the pairs of a handle and its
  listener, one for each breakpoint. Once the scope is mounted these are the
  registrations the platform has seen and no listener has been removed, whatever change
  notifications arrive; disposing the scope then removes exactly these subscriptions, each
  once, and leaves no handle with a listener. In no run at all have only some of them been
  removed: the removals recorded are none or all.
\<close>

theorem dispose_removes_all_listeners:
  assumes "idle w" and "\<not> isServer w" and "matchMedia w = Some f"
    and "distinct (map fst (heap w ! b))" and "watchChange opts \<noteq> Some False"
    and "''__proto__'' \<notin> keys (heap w ! b)"
  shows "\<exists>matches w' subs.
           createBreakpoints w b opts = Inr (matches, w') \<and>
           subs = map (\<lambda>(token, m). (m, Listener matches token)) (handles w (heap w ! b)) \<and>
           length subs = length (heap w ! b) \<and> distinct subs \<and>
           (\<forall>changes.
              list_all is_Change changes \<longrightarrow>
                registrations (trace (run w' (Mount # changes))) = registrations (trace w) @ subs \<and>
                removals (trace (run w' (Mount # changes))) = removals (trace w) \<and>
                removals (trace (dispose (run w' (Mount # changes)))) = removals (trace w) @ rev subs \<and>
                list_all (\<lambda>m. mql_listeners m = []) (mqls (dispose (run w' (Mount # changes))))) \<and>
           (\<forall>acts. removals (trace (run w' acts)) = removals (trace w) \<or>
                   removals (trace (run w' acts)) = removals (trace w) @ rev subs)"
proof -
  let ?B = "heap w ! b"
  let ?a = "length (heap w)" and ?ks = "map fst (entries ?B)" and ?n = "length (mqls w)"
  let ?w' = "constructed w f b opts"
  let ?I = "zip ?ks [?n..<?n + length ?ks]"
  let ?subs = "map (\<lambda>(token, m). (m, Listener ?a token)) ?I"
  have sup: "checkMqSupported w" using assms(2,3) by (simp add: checkMqSupported_iff)
  have sw: "shouldWatch opts" using assms(5) by (simp add: shouldWatch_iff)
  have c: "createBreakpoints w b opts = Inr (?a, ?w')"
    by (rule createBreakpoints_supported [OF sup assms(3,4)])
  have p: "in_phase ?a opts ?ks ?n Constructed ?w'"
    by (rule constructed_in_phase [OF assms(1,6)])
  have I: "handles w ?B = ?I" using handles_id [OF assms(6), of w] by simp
  have len: "length ?subs = length ?B" by (simp add: length_entries)
  have dist: "distinct ?subs"
    by (rule distinct_subscriptions) (simp add: distinct_entries assms(4))
  have t0: "registrations (trace ?w') = registrations (trace w)"
    "removals (trace ?w') = removals (trace w)"
    by (simp_all add: constructed_fields registrations_append removals_append
        registrations_map removals_map case_prod_unfold
        registrations_map(3) [of "map (\<lambda>p. mediaquery opts (snd p)) (entries ?B)", simplified comp_def map_map]
        removals_map(3) [of "map (\<lambda>p. mediaquery opts (snd p)) (entries ?B)", simplified comp_def map_map])
  have watching: "registrations (trace (run ?w' (Mount # changes))) = registrations (trace w) @ ?subs \<and>
        removals (trace (run ?w' (Mount # changes))) = removals (trace w) \<and>
        removals (trace (dispose (run ?w' (Mount # changes)))) = removals (trace w) @ rev ?subs \<and>
        list_all (\<lambda>m. mql_listeners m = []) (mqls (dispose (run ?w' (Mount # changes))))"
    if ch: "list_all is_Change changes" for changes
  proof -
    let ?s = "run ?w' (Mount # changes)"
    from run_phase [OF p sw key_order_entries, of "Mount # changes"] run_trace_changes [OF ch, of ?a ?ks ?n]
    have ps: "in_phase ?a opts ?ks ?n Watching ?s"
      and ts: "trace ?s = trace ?w' @ map (\<lambda>(k, m). AddEventListener m (Listener ?a k)) ?I"
      by simp_all
    from step_phase [OF ps sw key_order_entries, of Dispose]
    have pd: "in_phase ?a opts ?ks ?n Disposed (dispose ?s)"
      and td: "trace (dispose ?s) = trace ?s @ rev (map (\<lambda>(k, m). RemoveEventListener m (Listener ?a k)) ?I)"
      by simp_all
    from pd have "map mql_listeners (mqls (dispose ?s)) = replicate (?n + length ?ks) []" by simp
    then have "list_all (\<lambda>l. l = []) (map mql_listeners (mqls (dispose ?s)))"
      by (simp add: list_all_iff)
    then have "list_all (\<lambda>m. mql_listeners m = []) (mqls (dispose ?s))"
      by (simp add: list_all_iff)
    then show ?thesis
      by (simp add: ts td registrations_append removals_append registrations_map removals_map
          removals_rev t0)
  qed
  have never_partial: "removals (trace (run ?w' acts)) = removals (trace w) \<or>
                   removals (trace (run ?w' acts)) = removals (trace w) @ rev ?subs" for acts
    using run_phase [OF p sw key_order_entries, of acts] removals_run_trace [of ?a ?ks ?n Constructed acts]
    by (auto simp: removals_append t0)
  show ?thesis
    unfolding c I using len dist watching never_partial by simp
qed

theorem dispose_removes_all_listeners_witness:
  "idle (browser [example_breakpoints]) \<and> \<not> isServer (browser [example_breakpoints]) \<and>
   matchMedia (browser [example_breakpoints]) = Some (\<lambda>query. query = ''(min-width: 640px)'') \<and>
   distinct (map fst (heap (browser [example_breakpoints]) ! 0)) \<and>
   watchChange no_options \<noteq> Some False \<and>
   ''__proto__'' \<notin> keys (heap (browser [example_breakpoints]) ! 0) \<and>
   list_all is_Change [Change 0 True, Change 1 True] \<and>
   (\<exists>matches w'.
      createBreakpoints (browser [example_breakpoints]) 0 no_options = Inr (matches, w') \<and>
      matches = 1 \<and>
      registrations (trace (run w' [Mount, Change 0 True, Change 1 True]))
        = [(0, Listener 1 ''sm''), (1, Listener 1 ''lg''), (2, Listener 1 ''xl'')] \<and>
      removals (trace (run w' [Mount, Change 0 True, Change 1 True])) = [] \<and>
      removals (trace (dispose (run w' [Mount, Change 0 True, Change 1 True])))
        = [(2, Listener 1 ''xl''), (1, Listener 1 ''lg''), (0, Listener 1 ''sm'')])"
proof -
  let ?W = "browser [example_breakpoints]"
  have 1: "idle ?W" and 2: "\<not> isServer ?W"
    and 3: "matchMedia ?W = Some (\<lambda>query. query = ''(min-width: 640px)'')"
    and 4: "distinct (map fst (heap ?W ! 0))" and 5: "watchChange no_options \<noteq> Some False"
    and 6: "list_all is_Change [Change 0 True, Change 1 True]"
    and p: "''__proto__'' \<notin> keys (heap ?W ! 0)"
    by (simp_all add: server_simps browser_simps example_breakpoints_def no_options_def keys_def)
  from dispose_removes_all_listeners [OF 1 2 3 4 5 p] obtain matches w' subs where
    c: "createBreakpoints ?W 0 no_options = Inr (matches, w')" and
    s: "subs = map (\<lambda>(token, m). (m, Listener matches token)) (handles ?W (heap ?W ! 0))" and
    a: "\<forall>changes.
              list_all is_Change changes \<longrightarrow>
                registrations (trace (run w' (Mount # changes))) = registrations (trace ?W) @ subs \<and>
                removals (trace (run w' (Mount # changes))) = removals (trace ?W) \<and>
                removals (trace (dispose (run w' (Mount # changes)))) = removals (trace ?W) @ rev subs \<and>
                list_all (\<lambda>m. mql_listeners m = []) (mqls (dispose (run w' (Mount # changes))))"
    by (elim exE conjE)
  have m: "matches = 1"
    using c createBreakpoints_supported [of ?W _ 0 no_options] 3 4
    by (simp add: browser_simps)
  have s': "subs = [(0, Listener 1 ''sm''), (1, Listener 1 ''lg''), (2, Listener 1 ''xl'')]"
    unfolding s m
    by (simp add: handles_def browser_simps entries_examples created_def)
       (simp add: example_breakpoints_def)
  from a [rule_format, OF 6] have
    "registrations (trace (run w' [Mount, Change 0 True, Change 1 True]))
        = [(0, Listener 1 ''sm''), (1, Listener 1 ''lg''), (2, Listener 1 ''xl'')]"
    "removals (trace (run w' [Mount, Change 0 True, Change 1 True])) = []"
    "removals (trace (dispose (run w' [Mount, Change 0 True, Change 1 True])))
        = [(2, Listener 1 ''xl''), (1, Listener 1 ''lg''), (0, Listener 1 ''sm'')]"
    by (simp_all add: s' browser_simps)
  with 1 2 3 4 5 6 p c m show ?thesis
    by (intro conjI exI [of _ matches] exI [of _ w'])
qed

section \<open>The fallback option where the facility is available\<close>

lemma erase_fields: "heap (erase w) = heap w" "trace (erase w) = trace w" "mqls (erase w) = mqls w"
  "cleanups (erase w) = cleanups w"
  by (simp_all add: erase_def)

lemma run_effect_erase_effect: "run_effect w (erase_effect e) = run_effect w e"
  by (cases e) simp

lemma subscribe_effects: "effects (subscribe a w p) = effects w"
  by (cases p) (simp add: subscribe_def addEventListener_def onCleanup_def Let_def)

lemma foldl_subscribe_effects: "effects (foldl (subscribe a) w ps) = effects w"
  by (induction ps arbitrary: w) (simp_all add: subscribe_effects)

lemma run_effect_effects: "effects (run_effect w e) = effects w"
  by (cases e) (simp add: run_effect_subscribe foldl_subscribe_effects del: run_effect.simps)

lemma foldl_run_effect_effects: "effects (foldl run_effect w es) = effects w"
  by (induction es arbitrary: w) (simp_all add: run_effect_effects)

lemma mount_erase: "mount (erase w) = mount w" "erase (mount w) = mount w"
proof -
  have "foldl run_effect s (map erase_effect es) = foldl run_effect s es" for s es
    by (induction es arbitrary: s) (simp_all add: run_effect_erase_effect)
  then show "mount (erase w) = mount w" by (simp add: mount_def erase_def)
  have "effects (mount w) = []" by (simp add: mount_def foldl_run_effect_effects)
  then show "erase (mount w) = mount w" by (simp add: erase_def)
qed

lemma dispose_erase: "dispose (erase w) = dispose w" "erase (dispose w) = dispose w"
proof -
  show "dispose (erase w) = dispose w" by (simp add: dispose_def erase_def)
  have "effects (dispose w) = []"
    using foldl_run_cleanup [of "w\<lparr>effects := [], cleanups := []\<rparr>" "rev (cleanups w)"]
    by (simp add: dispose_def)
  then show "erase (dispose w) = dispose w" by (simp add: erase_def)
qed

lemma call_listener_effects_update:
  "call_listener v (w\<lparr>effects := es\<rparr>) l = (call_listener v w l)\<lparr>effects := es\<rparr>"
  by (cases l) simp_all

lemma foldl_call_listener_effects_update:
  "foldl (call_listener v) (w\<lparr>effects := es\<rparr>) ls = (foldl (call_listener v) w ls)\<lparr>effects := es\<rparr>"
  by (induction ls arbitrary: w) (simp_all add: call_listener_effects_update)

lemma dispatch_change_effects_update:
  "dispatch_change (w\<lparr>effects := es\<rparr>) m v = (dispatch_change w m v)\<lparr>effects := es\<rparr>"
proof -
  have "foldl (call_listener v) (w\<lparr>effects := es, mqls := ms\<rparr>) ls
      = (foldl (call_listener v) (w\<lparr>mqls := ms\<rparr>) ls)\<lparr>effects := es\<rparr>" for ms ls
  proof -
    have "w\<lparr>effects := es, mqls := ms\<rparr> = (w\<lparr>mqls := ms\<rparr>)\<lparr>effects := es\<rparr>" by simp
    then show ?thesis by (simp only: foldl_call_listener_effects_update)
  qed
  then show ?thesis by (simp add: dispatch_change_def Let_def)
qed

lemma dispatch_change_erase: "dispatch_change (erase w) m v = erase (dispatch_change w m v)"
  by (simp add: erase_def dispatch_change_effects_update dispatch_change_fields)

lemma step_erase: "step (erase w) act = erase (step w act)"
  by (cases act) (simp_all add: mount_erase dispose_erase dispatch_change_erase)

lemma run_erase: "run (erase w) acts = erase (run w acts)"
proof (induction acts arbitrary: w)
  case Nil
  then show ?case by (simp add: run_def)
next
  case (Cons act acts)
  from Cons.IH [of "step w act"] show ?case by (simp add: run_def step_erase)
qed

lemma mediaquery_fallbackMatch: "mediaquery (opts\<lparr>fallbackMatch := fb\<rparr>) = mediaquery opts"
  by (rule ext) (simp add: mediaquery_def)

lemma createBreakpoints_erase:
  assumes "checkMqSupported w"
  shows "\<exists>matches w1 w2.
           createBreakpoints w b opts = Inr (matches, w1) \<and>
           createBreakpoints w b (opts\<lparr>fallbackMatch := fb\<rparr>) = Inr (matches, w2) \<and>
           erase w1 = erase w2"
proof -
  from assms obtain f where f: "matchMedia w = Some f" by (auto simp: checkMqSupported_iff)
  from trace_mqlInstances [OF f, of b opts] obtain memo w0 where
    m: "mqlInstances w b opts True = Inr (memo, w0)" by blast
  then have m': "mqlInstances w b (opts\<lparr>fallbackMatch := fb\<rparr>) True = Inr (memo, w0)"
    by (simp add: mqlInstances_def mediaquery_fallbackMatch)
  have g: "getInitialMatches w0 b (opts\<lparr>fallbackMatch := fb\<rparr>) True memo
         = getInitialMatches w0 b opts True memo"
    by (simp add: getInitialMatches_def)
  obtain a w2 where i: "getInitialMatches w0 b opts True memo = (a, w2)"
    by (cases "getInitialMatches w0 b opts True memo")
  show ?thesis
    by (simp add: createBreakpoints_def assms m m' g i createEffect_def erase_def)
qed

text \<open>
  C10. With the facility available, two calls of createBreakpoints that differ only in
  options.fallbackMatch return the same mapping (the same new object, with the same
  contents), and after the same sequence of mountings, change notifications and disposals
  the two heaps, and what the platform has recorded, are still the same.
\<close>

theorem fallbackMatch_unused_when_supported:
  assumes "checkMqSupported w"
  shows "\<exists>matches w1 w2.
           createBreakpoints w b (opts\<lparr>fallbackMatch := fb1\<rparr>) = Inr (matches, w1) \<and>
           createBreakpoints w b (opts\<lparr>fallbackMatch := fb2\<rparr>) = Inr (matches, w2) \<and>
           (\<forall>acts. heap (run w1 acts) = heap (run w2 acts) \<and>
                   trace (run w1 acts) = trace (run w2 acts))"
proof -
  from createBreakpoints_erase [OF assms, of b opts fb1] obtain m1 w0 w1 where
    1: "createBreakpoints w b opts = Inr (m1, w0)"
       "createBreakpoints w b (opts\<lparr>fallbackMatch := fb1\<rparr>) = Inr (m1, w1)" "erase w0 = erase w1"
    by blast
  from createBreakpoints_erase [OF assms, of b opts fb2] obtain m2 w0' w2 where
    2: "createBreakpoints w b opts = Inr (m2, w0')"
       "createBreakpoints w b (opts\<lparr>fallbackMatch := fb2\<rparr>) = Inr (m2, w2)" "erase w0' = erase w2"
    by blast
  from 1(1) 2(1) have "m2 = m1" "w0' = w0" by simp_all
  with 1(3) 2(3) have e: "erase w1 = erase w2" by simp
  have "heap (run w1 acts) = heap (run w2 acts) \<and> trace (run w1 acts) = trace (run w2 acts)" for acts
  proof -
    have "erase (run w1 acts) = erase (run w2 acts)"
      by (simp only: run_erase [symmetric] e)
    then have "heap (erase (run w1 acts)) = heap (erase (run w2 acts))"
      "trace (erase (run w1 acts)) = trace (erase (run w2 acts))"
      by simp_all
    then show ?thesis by (simp add: erase_fields)
  qed
  with 1(2) 2(2) \<open>m2 = m1\<close> show ?thesis by blast
qed

theorem fallbackMatch_unused_when_supported_witness:
  "checkMqSupported (browser [example_breakpoints, example_fallback]) \<and>
   (\<exists>matches w1 w2.
      createBreakpoints (browser [example_breakpoints, example_fallback]) 0 no_options = Inr (matches, w1) \<and>
      createBreakpoints (browser [example_breakpoints, example_fallback]) 0 fallback_options = Inr (matches, w2) \<and>
      heap (run w1 [Mount, Change 1 True]) ! matches = heap (run w2 [Mount, Change 1 True]) ! matches)"
proof -
  let ?W = "browser [example_breakpoints, example_fallback]"
  have 1: "checkMqSupported ?W" by (simp add: browser_simps)
  have o: "no_options\<lparr>fallbackMatch := None\<rparr> = no_options"
    "no_options\<lparr>fallbackMatch := Some 1\<rparr> = fallback_options"
    by (simp_all add: no_options_def fallback_options_def)
  from fallbackMatch_unused_when_supported
    [OF 1, where b = 0 and opts = no_options and ?fb1.0 = None and ?fb2.0 = "Some 1"]
  obtain matches w1 w2 where
    "createBreakpoints ?W 0 no_options = Inr (matches, w1)"
    "createBreakpoints ?W 0 fallback_options = Inr (matches, w2)"
    "\<forall>acts. heap (run w1 acts) = heap (run w2 acts) \<and> trace (run w1 acts) = trace (run w2 acts)"
    unfolding o by (elim exE conjE)
  then have "createBreakpoints ?W 0 no_options = Inr (matches, w1) \<and>
      createBreakpoints ?W 0 fallback_options = Inr (matches, w2) \<and>
      heap (run w1 [Mount, Change 1 True]) ! matches = heap (run w2 [Mount, Change 1 True]) ! matches"
    by simp
  with 1 show ?thesis by blast
qed

end
